theory Spec2Isabelle
  imports Complex_Main "HOL-Library.Sublist"
begin

section \<open>Data model\<close>

text \<open>
  The grasp filter of \<^verbatim>\<open>src/src/grasp_filter.cpp\<close>. The value of a C++ \<^verbatim>\<open>double\<close> is a
  \<^typ>\<open>real\<close>. The filter stores and compares joint values, timeouts and qualities. It
  calculates with doubles in two places: the range bounds of \<^verbatim>\<open>filterGraspsHelper\<close>, where
  every operation is rounded to the nearest double as the machine rounds it (\<open>binary64\<close>
  below), and the yaw angle of \<^verbatim>\<open>chooseBestGrasp\<close>, which is calculated exactly.
  A \<^verbatim>\<open>std::vector\<close> is a list, \<^verbatim>\<open>std::size_t\<close> and the non-negative \<^verbatim>\<open>int\<close> indices are
  \<^typ>\<open>nat\<close> (no candidate count reaches \<open>2^31\<close>). A member whose C++ name ends in an
  underscore has that name with a prime: \<^verbatim>\<open>grasp_\<close> is \<open>grasp_'\<close>.
\<close>

type_synonym joints = "real list"

record Point =
  px :: real
  py :: real
  pz :: real

record Quaternion =
  qx :: real
  qy :: real
  qz :: real
  qw :: real

record Pose =
  position :: Point
  orientation :: Quaternion

record PoseStamped =
  frame_id :: string
  pose :: Pose

text \<open>
  \<^verbatim>\<open>moveit_msgs::Grasp\<close>: the fields the filter reads. The remaining fields of the message
  are read only by \<^verbatim>\<open>Grasps::getPreGraspPose\<close>, which is a parameter below.
\<close>

record Grasp =
  grasp_id :: string
  grasp_pose :: PoseStamped
  grasp_quality :: real

record GraspSolution =
  grasp_' :: Grasp
  grasp_ik_solution_' :: joints
  pregrasp_ik_solution_' :: joints

text \<open>
  What the filter writes to the ROS console at severity INFO and above, and what it asks
  of the visual tools, in the order of the calls. \<^verbatim>\<open>ROS_DEBUG\<close> messages and raw
  \<^verbatim>\<open>std::cout\<close> output are not recorded.
\<close>

datatype message =
    NoGraspsToChooseFrom
  | ChoseGraspWithQuality real
  | VectorIsEmpty
  | NoEndEffectorsAttached
  | MoreThanOneEndEffectors
  | RerunningInVerboseMode
  | UsingOnlyThreads nat
  | FilteringWithThreads nat
  | NoKinematicSolverFound
  | FilterComplete nat nat
  | NotFilteringPregrasp
  | IKSolutionError int
  | IKSolutionErrorPregrasp int
  | NonePassedIn
  | GraspFilterFailed
  | AllGraspsFilteredDueToCollision
  | RerunningInDebugMode
  | GraspSolutionColliding
  | AfterCollisionChecking nat

datatype event =
    ROS_ERROR message
  | ROS_WARN message
  | ROS_INFO message
  | publishEEMarkers Pose
  | publishRobotState
  | publishContactPoints
  | hideRobot
  | sleep real

text \<open>What ends the process instead of returning: a null pointer or an empty vector is read.\<close>

datatype fault = NullPointerDereference | IndexOutOfRange

section \<open>Selection: \<^verbatim>\<open>chooseBestGrasp\<close>\<close>

text \<open>
  \<^verbatim>\<open>asin\<close> of \<^verbatim>\<open>math.h\<close>: outside \<open>[-1, 1]\<close> the result is NaN, here \<open>None\<close>.
  A comparison with NaN is false.
\<close>

definition asin :: "real \<Rightarrow> real option" where
  "asin v = (if - 1 \<le> v \<and> v \<le> 1 then Some (arcsin v) else None)"

definition yall :: "GraspSolution \<Rightarrow> real option" where
  "yall s =
     (let o' = orientation (pose (grasp_pose (grasp_' s)))
      in asin (- 2 * (qx o' * qz o' - qw o' * qy o')))"

text \<open>
  The loop over \<^verbatim>\<open>filtered_grasps\<close>, on the pair \<^verbatim>\<open>(max_quality, chosen)\<close>. The branch
  \<^verbatim>\<open>METHOD 1\<close>, which reads \<^verbatim>\<open>grasp_quality\<close>, is under \<^verbatim>\<open>if (false)\<close> and never
  runs; the loop body is the branch \<^verbatim>\<open>METHOD 2\<close>.
\<close>

fun chooseBestGrasp_loop ::
  "GraspSolution list \<Rightarrow> real \<times> GraspSolution \<Rightarrow> real \<times> GraspSolution" where
  "chooseBestGrasp_loop [] (max_quality, chosen) = (max_quality, chosen)"
| "chooseBestGrasp_loop (s # rest) (max_quality, chosen) =
     (case yall s of
        Some v \<Rightarrow>
          if v > max_quality then chooseBestGrasp_loop rest (v, s)
          else chooseBestGrasp_loop rest (max_quality, chosen)
      | None \<Rightarrow> chooseBestGrasp_loop rest (max_quality, chosen))"

text \<open>The result is the returned flag, the output parameter \<^verbatim>\<open>chosen\<close> and the output.\<close>

definition chooseBestGrasp ::
  "GraspSolution list \<Rightarrow> GraspSolution \<Rightarrow> bool \<times> GraspSolution \<times> event list" where
  "chooseBestGrasp filtered_grasps chosen =
     (if filtered_grasps = [] then (False, chosen, [ROS_ERROR NoGraspsToChooseFrom])
      else
        (let (max_quality, chosen') = chooseBestGrasp_loop filtered_grasps (- 1, chosen)
         in (True, chosen', [ROS_INFO (ChoseGraspWithQuality max_quality)])))"

section \<open>The filter's members and the arm's joint model group\<close>

text \<open>
  A kinematics solver (\<^verbatim>\<open>kinematics::KinematicsBase\<close>): its base frame and
  \<^verbatim>\<open>searchPositionIK\<close>, a \<^verbatim>\<open>const\<close> method, from the pose, the seed state and the timeout
  to the solution and the value of the error code it writes.
\<close>

record KinematicsBase =
  getBaseFrame :: string
  searchPositionIK :: "Pose \<Rightarrow> joints \<Rightarrow> real \<Rightarrow> joints \<times> int"

text \<open>The constants of \<^verbatim>\<open>moveit_msgs/MoveItErrorCodes\<close> that the filter compares with.\<close>

definition SUCCESS :: int where "SUCCESS = 1"
definition TIMED_OUT :: int where "TIMED_OUT = - 6"
definition NO_IK_SOLUTION :: int where "NO_IK_SOLUTION = - 31"

record EndEffectorGroup =
  getEndEffectorParentGroup :: "string \<times> string"

text \<open>
  The arm's \<^verbatim>\<open>JointModelGroup\<close>, passed as a pointer to a constant: each of its methods
  answers the same at every call. \<^verbatim>\<open>getSolverInstance\<close> is \<open>None\<close> for the null pointer,
  \<^verbatim>\<open>getJointModelGroup\<close> is the lookup of \<^verbatim>\<open>getParentModel()\<close>, \<open>None\<close> for null.
\<close>

record JointModelGroup =
  getName :: string
  getDefaultIKTimeout :: real
  getVariableCount :: nat
  getAttachedEndEffectorNames :: "string list"
  getSolverInstance :: "KinematicsBase option"
  getJointModelGroup :: "string \<Rightarrow> EndEffectorGroup option"

text \<open>
  The members of \<^verbatim>\<open>GraspFilter\<close>. \<^verbatim>\<open>kin_solvers_\<close> is a \<^verbatim>\<open>std::map\<close> read with
  \<^verbatim>\<open>operator[]\<close> only, which gives the empty vector for a name without an entry.
\<close>

record 'rs GraspFilter =
  robot_state_' :: 'rs
  kin_solvers_' :: "string \<Rightarrow> KinematicsBase option list"
  solver_timeout_' :: real
  num_variables_' :: nat

section \<open>Stage B: \<^verbatim>\<open>filterGraspsInCollision\<close>\<close>

text \<open>
  The robot state \<open>'rs\<close> and the planning scene \<open>'sc\<close> belong to MoveIt. The scene is the
  snapshot that \<^verbatim>\<open>PlanningScene::clone\<close> gives; it is taken as the same at both passes of
  one call.
\<close>

record ('rs, 'sc) collision_services =
  setJointGroupPositions :: "'rs \<Rightarrow> JointModelGroup \<Rightarrow> joints \<Rightarrow> 'rs"
  isStateColliding :: "'sc \<Rightarrow> 'rs \<Rightarrow> string \<Rightarrow> bool \<Rightarrow> bool"

text \<open>\<^verbatim>\<open>std::vector::erase\<close> at a position.\<close>

definition erase :: "'a list \<Rightarrow> nat \<Rightarrow> 'a list" where
  "erase xs i = take i xs @ drop (Suc i) xs"

text \<open>
  The loop of \<^verbatim>\<open>filterGraspsInCollisionHelper\<close>. The iterator \<^verbatim>\<open>grasp_it\<close> is the
  position \<open>i\<close>: after \<^verbatim>\<open>erase(grasp_it)\<close> the source goes on with the same iterator, which
  then stands at the element that followed the erased one. The scratch state
  \<^verbatim>\<open>robot_state_\<close> is written at every turn. The commented-out test of the pre-grasp
  configuration is not part of the program.
\<close>

function filterGraspsInCollisionHelper_loop ::
  "('rs, 'sc) collision_services \<Rightarrow> 'sc \<Rightarrow> JointModelGroup \<Rightarrow> bool \<Rightarrow>
   'rs \<times> GraspSolution list \<times> event list \<Rightarrow> nat \<Rightarrow> 'rs \<times> GraspSolution list \<times> event list" where
  "filterGraspsInCollisionHelper_loop cs cloned_scene arm_jmg verbose (rs, possible_grasps, out) i =
     (if i < length possible_grasps then
        (let rs' = setJointGroupPositions cs rs arm_jmg (grasp_ik_solution_' (possible_grasps ! i))
         in if isStateColliding cs cloned_scene rs' (getName arm_jmg) verbose then
              filterGraspsInCollisionHelper_loop cs cloned_scene arm_jmg verbose
                (rs', erase possible_grasps i,
                 out @ (if verbose
                        then [ROS_INFO GraspSolutionColliding, publishRobotState,
                              publishContactPoints, sleep 4]
                        else [])) i
            else
              filterGraspsInCollisionHelper_loop cs cloned_scene arm_jmg verbose
                (rs', possible_grasps, out) (Suc i))
      else (rs, possible_grasps, out))"
  by pat_completeness auto
termination
  by (relation "measure (\<lambda>(cs, sc, arm, v, (rs, xs, out), i). length xs - i)")
     (auto simp: erase_def)

definition filterGraspsInCollisionHelper ::
  "('rs, 'sc) collision_services \<Rightarrow> 'rs GraspFilter \<Rightarrow> GraspSolution list \<Rightarrow> 'sc \<Rightarrow>
   JointModelGroup \<Rightarrow> 'rs \<Rightarrow> bool \<Rightarrow> bool \<times> 'rs GraspFilter \<times> GraspSolution list \<times> event list" where
  "filterGraspsInCollisionHelper cs st possible_grasps scene arm_jmg robot_state verbose =
     (let (rs, possible_grasps', out) =
            filterGraspsInCollisionHelper_loop cs scene arm_jmg verbose
              (robot_state, possible_grasps, []) 0
      in (True, st\<lparr>robot_state_' := rs\<rparr>, possible_grasps',
          out @ [ROS_INFO (AfterCollisionChecking (length possible_grasps'))]
              @ (if verbose then [hideRobot] else [])))"

text \<open>
  \<^verbatim>\<open>filterGraspsInCollision\<close>: the caller's vector is \<^verbatim>\<open>possible_grasps\<close>; the second
  pass works on the copy \<^verbatim>\<open>original_possible_grasps\<close>, which is dropped at the return.
\<close>

definition filterGraspsInCollision ::
  "('rs, 'sc) collision_services \<Rightarrow> 'rs GraspFilter \<Rightarrow> GraspSolution list \<Rightarrow> 'sc \<Rightarrow>
   JointModelGroup \<Rightarrow> 'rs \<Rightarrow> bool \<Rightarrow> bool \<times> 'rs GraspFilter \<times> GraspSolution list \<times> event list" where
  "filterGraspsInCollision cs st possible_grasps scene arm_jmg robot_state verbose =
     (if length possible_grasps = 0 then (False, st, possible_grasps, [ROS_ERROR NonePassedIn])
      else
        (let original_possible_grasps = possible_grasps;
             (ok, st1, possible_grasps1, out1) =
               filterGraspsInCollisionHelper cs st possible_grasps scene arm_jmg robot_state verbose
         in if \<not> ok then (False, st1, possible_grasps1, out1 @ [ROS_ERROR GraspFilterFailed])
            else if length possible_grasps1 = 0 \<and> \<not> verbose then
              (let (ok2, st2, original_possible_grasps2, out2) =
                     filterGraspsInCollisionHelper cs st1 original_possible_grasps scene arm_jmg
                       robot_state True;
                   out' = out1 @ [ROS_WARN AllGraspsFilteredDueToCollision,
                                  ROS_WARN RerunningInDebugMode] @ out2
               in if \<not> ok2 then (False, st2, possible_grasps1, out' @ [ROS_ERROR GraspFilterFailed])
                  else (True, st2, possible_grasps1, out'))
            else (True, st1, possible_grasps1, out1)))"

section \<open>Double arithmetic\<close>

text \<open>
  The rounding of IEEE 754 binary64 in the default mode, to the nearest value with ties to
  the even significand. \<open>round_to_even\<close> rounds to an integer; \<open>ex2\<close> is the binary
  exponent of a number; a double of exponent \<open>e\<close> is an integer multiple of \<open>2^(e - 52)\<close>,
  and \<open>binary64 x\<close> is the nearest such multiple: what a machine that calculates in
  binary64 gives for an operation whose exact result is \<open>x\<close>. Overflow and subnormal
  numbers are left out: the numbers that the filter calculates lie between \<open>2^(-64)\<close> and \<open>2^64\<close>. The
  conversions of \<^verbatim>\<open>std::size_t\<close> and \<^verbatim>\<open>int\<close> to \<^verbatim>\<open>double\<close> are exact below \<open>2^53\<close>.
\<close>

definition round_to_even :: "real \<Rightarrow> int" where
  "round_to_even z =
     (let f = \<lfloor>z\<rfloor>
      in if z - of_int f < 1 / 2 then f
         else if z - of_int f > 1 / 2 then f + 1
         else if even f then f else f + 1)"

definition ex2 :: "real \<Rightarrow> int" where
  "ex2 x = \<lfloor>log 2 \<bar>x\<bar>\<rfloor>"

definition binary64 :: "real \<Rightarrow> real" where
  "binary64 x =
     (if x = 0 then 0
      else
        (let ulp = 2 powr (of_int (ex2 x) - 52)
         in ulp * of_int (round_to_even (x / ulp))))"

section \<open>Stage A: \<^verbatim>\<open>filterGrasps\<close>\<close>

text \<open>
  An \<^verbatim>\<open>Eigen::Affine3d\<close> is the map it is used for: from a pose to the product of the
  transform with that pose (\<^verbatim>\<open>poseMsgToEigen\<close>, the product, \<^verbatim>\<open>poseEigenToMsg\<close>).
\<close>

type_synonym Affine3d = "Pose \<Rightarrow> Pose"

text \<open>
  What stage A asks of Boost, MoveIt and \<^verbatim>\<open>Grasps\<close>. \<^verbatim>\<open>getLinkModel\<close> is \<open>None\<close> for the
  null pointer; \<^verbatim>\<open>getGlobalLinkTransform_inverse\<close> is
  \<^verbatim>\<open>getGlobalLinkTransform(lm).inverse()\<close>; \<^verbatim>\<open>uninitialized_Affine3d\<close> is what the
  declaration \<^verbatim>\<open>Eigen::Affine3d link_transform;\<close> leaves in the variable, which the
  source reads when the frames are the same.
\<close>

record ('rs, 'l) ik_services =
  hardware_concurrency :: nat
  sameFrame :: "string \<Rightarrow> string \<Rightarrow> bool"
  getModelFrame :: "'rs \<Rightarrow> string"
  getLinkModel :: "'rs \<Rightarrow> string \<Rightarrow> 'l option"
  getGlobalLinkTransform_inverse :: "'rs \<Rightarrow> 'l \<Rightarrow> Affine3d"
  uninitialized_Affine3d :: Affine3d
  getPreGraspPose :: "Grasp \<Rightarrow> string \<Rightarrow> PoseStamped"

text \<open>
  \<^verbatim>\<open>IkThreadStruct\<close>, without the reference to the shared vector \<^verbatim>\<open>filtered_grasps_\<close> and
  the lock: a worker returns the solutions it appends, in the order it appends them.
\<close>

record IkThreadStruct =
  possible_grasps_' :: "Grasp list"
  link_transform_' :: Affine3d
  grasps_id_start_' :: nat
  grasps_id_end_' :: nat
  kin_solver_' :: "KinematicsBase option"
  filter_pregrasp_' :: bool
  ee_jmg_' :: "EndEffectorGroup option"
  timeout_' :: real
  verbose_' :: bool
  thread_id_' :: nat

text \<open>
  One turn of the loop of \<^verbatim>\<open>filterGraspThread\<close>, for the candidate at index \<open>i\<close> with the
  seed state of that moment: the seed state after the turn, the solutions appended at this
  turn (none or one) and the output.
\<close>

definition filterGraspThread_body ::
  "(Grasp \<Rightarrow> string \<Rightarrow> PoseStamped) \<Rightarrow> IkThreadStruct \<Rightarrow> nat \<Rightarrow> joints \<Rightarrow>
   fault + (joints \<times> GraspSolution list \<times> event list)" where
  "filterGraspThread_body getPreGraspPose' ts i ik_seed_state =
     (if \<not> i < length (possible_grasps_' ts) then Inl IndexOutOfRange
      else
        (let g = possible_grasps_' ts ! i;
             ik_pose = link_transform_' ts (pose (grasp_pose g));
             out = (if verbose_' ts then [publishEEMarkers ik_pose, sleep (1 / 10)] else [])
         in case kin_solver_' ts of
              None \<Rightarrow> Inl NullPointerDereference
            | Some solver \<Rightarrow>
                (let (grasp_ik_solution, error_code) =
                       searchPositionIK solver ik_pose ik_seed_state (timeout_' ts)
                 in if error_code = SUCCESS then
                      (if filter_pregrasp_' ts then
                         (case ee_jmg_' ts of
                            None \<Rightarrow> Inl NullPointerDereference
                          | Some ee \<Rightarrow>
                              (let ee_parent_link_name = snd (getEndEffectorParentGroup ee);
                                   pre_pose = link_transform_' ts
                                     (pose (getPreGraspPose' g ee_parent_link_name));
                                   (pregrasp_ik_solution, error_code2) =
                                     searchPositionIK solver pre_pose grasp_ik_solution (timeout_' ts)
                               in if error_code2 = NO_IK_SOLUTION then
                                    Inr (grasp_ik_solution, [], out)
                                  else if error_code2 = TIMED_OUT then
                                    Inr (grasp_ik_solution, [], out)
                                  else if error_code2 \<noteq> SUCCESS then
                                    Inr (grasp_ik_solution, [],
                                         out @ [ROS_INFO (IKSolutionErrorPregrasp error_code2)])
                                  else
                                    Inr (grasp_ik_solution,
                                         [\<lparr>grasp_' = g, grasp_ik_solution_' = grasp_ik_solution,
                                           pregrasp_ik_solution_' = pregrasp_ik_solution\<rparr>],
                                         out)))
                       else
                         Inr (grasp_ik_solution,
                              [\<lparr>grasp_' = g, grasp_ik_solution_' = grasp_ik_solution,
                                pregrasp_ik_solution_' = []\<rparr>],
                              out @ [ROS_WARN NotFilteringPregrasp]))
                    else if error_code = NO_IK_SOLUTION then Inr (ik_seed_state, [], out)
                    else if error_code = TIMED_OUT then Inr (ik_seed_state, [], out)
                    else Inr (ik_seed_state, [], out @ [ROS_INFO (IKSolutionError error_code)]))))"

function filterGraspThread_loop ::
  "(Grasp \<Rightarrow> string \<Rightarrow> PoseStamped) \<Rightarrow> IkThreadStruct \<Rightarrow> nat \<Rightarrow> joints \<Rightarrow>
   GraspSolution list \<times> event list \<Rightarrow> fault + (GraspSolution list \<times> event list)" where
  "filterGraspThread_loop getPreGraspPose' ts i ik_seed_state (pushed, out) =
     (if i < grasps_id_end_' ts then
        (case filterGraspThread_body getPreGraspPose' ts i ik_seed_state of
           Inl f \<Rightarrow> Inl f
         | Inr (ik_seed_state', sols, out') \<Rightarrow>
             filterGraspThread_loop getPreGraspPose' ts (Suc i) ik_seed_state'
               (pushed @ sols, out @ out'))
      else Inr (pushed, out))"
  by pat_completeness auto
termination
  by (relation "measure (\<lambda>(g, ts, i, seed, acc). grasps_id_end_' ts - i)") auto

text \<open>
  \<^verbatim>\<open>filterGraspThread\<close>: the seed state starts as \<^verbatim>\<open>num_variables_\<close> zeros.
\<close>

definition filterGraspThread ::
  "(Grasp \<Rightarrow> string \<Rightarrow> PoseStamped) \<Rightarrow> nat \<Rightarrow> IkThreadStruct \<Rightarrow>
   fault + (GraspSolution list \<times> event list)" where
  "filterGraspThread getPreGraspPose' num_variables ts =
     filterGraspThread_loop getPreGraspPose' ts (grasps_id_start_' ts)
       (replicate num_variables 0) ([], [])"

text \<open>
  The worker count of \<^verbatim>\<open>filterGraspsHelper\<close>.
\<close>

definition num_threads_of :: "nat \<Rightarrow> nat \<Rightarrow> bool \<Rightarrow> nat" where
  "num_threads_of hardware_concurrency' size' verbose =
     (let num_threads = hardware_concurrency';
          num_threads = (if num_threads > size' then size' else num_threads)
      in if verbose then 1 else num_threads)"

text \<open>
  The loop that fills \<^verbatim>\<open>kin_solvers_[arm_jmg->getName()]\<close> after \<^verbatim>\<open>clear()\<close>: at a null
  solver it returns false and leaves the vector as it is, the null solver last.
\<close>

function load_solvers ::
  "JointModelGroup \<Rightarrow> nat \<Rightarrow> nat \<Rightarrow> KinematicsBase option list \<Rightarrow>
   bool \<times> KinematicsBase option list" where
  "load_solvers arm_jmg num_threads i solvers =
     (if i < num_threads then
        (let solvers' = solvers @ [getSolverInstance arm_jmg]
         in if solvers' ! i = None then (False, solvers')
            else load_solvers arm_jmg num_threads (Suc i) solvers')
      else (True, solvers))"
  by pat_completeness auto
termination
  by (relation "measure (\<lambda>(arm, n, i, solvers). n - i)") auto

text \<open>
  The loop that splits up the work. \<open>tc\<close> carries the fields that are the same for every
  worker; \<open>size'\<close> is \<^verbatim>\<open>possible_grasps.size()\<close>. The vector \<open>solvers\<close> has
  \<open>num_threads\<close> entries when the loop is reached. The quotient
  \<^verbatim>\<open>double(possible_grasps.size()) / num_threads\<close> and the product
  \<^verbatim>\<open>num_grasps_per_thread*(i+1)\<close> are doubles: each is rounded.
\<close>

function create_threads ::
  "IkThreadStruct \<Rightarrow> KinematicsBase option list \<Rightarrow> nat \<Rightarrow> nat \<Rightarrow> nat \<Rightarrow> nat \<Rightarrow>
   IkThreadStruct list" where
  "create_threads tc solvers size' num_threads i grasps_id_end =
     (if i < num_threads then
        (let num_grasps_per_thread = binary64 (real size' / real num_threads);
             grasps_id_start = grasps_id_end;
             grasps_id_end' = nat \<lceil>binary64 (num_grasps_per_thread * real (i + 1))\<rceil>;
             grasps_id_end' = (if grasps_id_end' \<ge> size' then size' else grasps_id_end')
         in tc\<lparr>grasps_id_start_' := grasps_id_start, grasps_id_end_' := grasps_id_end',
                kin_solver_' := solvers ! i, thread_id_' := i\<rparr>
            # create_threads tc solvers size' num_threads (Suc i) grasps_id_end')
      else [])"
  by pat_completeness auto
termination
  by (relation "measure (\<lambda>(tc, solvers, size', n, i, e). n - i)") auto

text \<open>
  \<^verbatim>\<open>join_all\<close>: every worker runs to its end. Each worker has its own seed state and the
  solvers are constant, so what a worker appends does not depend on the others; the
  shared vector is given here for the schedule in which the workers append in the order
  of their index, and another schedule gives a permutation of it. A fault in a worker
  ends the process.
\<close>

fun join_all ::
  "(Grasp \<Rightarrow> string \<Rightarrow> PoseStamped) \<Rightarrow> nat \<Rightarrow> IkThreadStruct list \<Rightarrow>
   fault + (GraspSolution list \<times> event list)" where
  "join_all getPreGraspPose' num_variables [] = Inr ([], [])"
| "join_all getPreGraspPose' num_variables (tc # tcs) =
     (case filterGraspThread getPreGraspPose' num_variables tc of
        Inl f \<Rightarrow> Inl f
      | Inr (pushed, out) \<Rightarrow>
          (case join_all getPreGraspPose' num_variables tcs of
             Inl f \<Rightarrow> Inl f
           | Inr (pushed', out') \<Rightarrow> Inr (pushed @ pushed', out @ out')))"

text \<open>The name of the link that \<^verbatim>\<open>getLinkModel\<close> is asked for.\<close>

definition link_name :: "string \<Rightarrow> string" where
  "link_name ik_frame =
     (if ik_frame \<noteq> [] \<and> ik_frame ! 0 = CHR ''/'' then drop 1 ik_frame else ik_frame)"

text \<open>
  The transform \<^verbatim>\<open>link_transform\<close> of \<^verbatim>\<open>filterGraspsHelper\<close>; \<open>None\<close> where the source
  returns false because the link model is null.
\<close>

definition link_transform_of ::
  "('rs, 'l) ik_services \<Rightarrow> 'rs \<Rightarrow> string \<Rightarrow> Affine3d option" where
  "link_transform_of sv rs ik_frame =
     (if \<not> sameFrame sv ik_frame (getModelFrame sv rs) then
        (case getLinkModel sv rs (link_name ik_frame) of
           None \<Rightarrow> None
         | Some lm \<Rightarrow> Some (getGlobalLinkTransform_inverse sv rs lm))
      else Some (uninitialized_Affine3d sv))"

text \<open>
  The block that loads the kinematic solvers "if not already loaded": the vector of the
  arm's name is filled again only when its length is not the worker count.
\<close>

definition ensure_solvers ::
  "KinematicsBase option list \<Rightarrow> JointModelGroup \<Rightarrow> nat \<Rightarrow> bool \<times> KinematicsBase option list" where
  "ensure_solvers cached arm_jmg num_threads =
     (if length cached \<noteq> num_threads then load_solvers arm_jmg num_threads 0 []
      else (True, cached))"

text \<open>The fields of \<^verbatim>\<open>IkThreadStruct\<close> that are the same for every worker of one run.\<close>

definition thread_struct ::
  "Grasp list \<Rightarrow> Affine3d \<Rightarrow> bool \<Rightarrow> EndEffectorGroup option \<Rightarrow> real \<Rightarrow> bool \<Rightarrow> IkThreadStruct" where
  "thread_struct possible_grasps link_transform filter_pregrasp ee_jmg timeout verbose =
     \<lparr>possible_grasps_' = possible_grasps, link_transform_' = link_transform,
      grasps_id_start_' = 0, grasps_id_end_' = 0, kin_solver_' = None,
      filter_pregrasp_' = filter_pregrasp, ee_jmg_' = ee_jmg, timeout_' = timeout,
      verbose_' = verbose, thread_id_' = 0\<rparr>"

definition filterGraspsHelper ::
  "('rs, 'l) ik_services \<Rightarrow> 'rs GraspFilter \<Rightarrow> Grasp list \<Rightarrow> GraspSolution list \<Rightarrow> bool \<Rightarrow>
   EndEffectorGroup option \<Rightarrow> JointModelGroup \<Rightarrow> bool \<Rightarrow>
   fault + (bool \<times> 'rs GraspFilter \<times> GraspSolution list \<times> event list)" where
  "filterGraspsHelper sv st possible_grasps filtered_grasps filter_pregrasp ee_jmg arm_jmg verbose =
     (let num_threads = num_threads_of (hardware_concurrency sv) (length possible_grasps) verbose;
          out = (if verbose then [ROS_WARN (UsingOnlyThreads num_threads)] else [])
                @ [ROS_INFO (FilteringWithThreads num_threads)];
          loaded = ensure_solvers (kin_solvers_' st (getName arm_jmg)) arm_jmg num_threads;
          solvers = snd loaded;
          st1 = st\<lparr>kin_solvers_' := (kin_solvers_' st)(getName arm_jmg := solvers)\<rparr>
      in if \<not> fst loaded then
           Inr (False, st1, filtered_grasps, out @ [ROS_ERROR NoKinematicSolverFound])
         else
           (case solvers of
              [] \<Rightarrow> Inl IndexOutOfRange
            | None # _ \<Rightarrow> Inl NullPointerDereference
            | Some solver0 # _ \<Rightarrow>
                (case link_transform_of sv (robot_state_' st1) (getBaseFrame solver0) of
                   None \<Rightarrow> Inr (False, st1, filtered_grasps, out)
                 | Some link_transform \<Rightarrow>
                     (case join_all (getPreGraspPose sv) (num_variables_' st1)
                             (create_threads
                                (thread_struct possible_grasps link_transform filter_pregrasp
                                   ee_jmg (solver_timeout_' st1) verbose)
                                solvers (length possible_grasps) num_threads 0 0) of
                        Inl f \<Rightarrow> Inl f
                      | Inr (pushed, out') \<Rightarrow>
                          (let filtered_grasps' = filtered_grasps @ pushed
                           in Inr (True, st1, filtered_grasps',
                                   out @ out'
                                   @ [ROS_INFO (FilterComplete (length filtered_grasps')
                                                  (length possible_grasps))]))))))"

definition filterGrasps ::
  "('rs, 'l) ik_services \<Rightarrow> 'rs GraspFilter \<Rightarrow> Grasp list \<Rightarrow> GraspSolution list \<Rightarrow> bool \<Rightarrow>
   JointModelGroup \<Rightarrow>
   fault + (bool \<times> 'rs GraspFilter \<times> GraspSolution list \<times> event list)" where
  "filterGrasps sv st possible_grasps filtered_grasps filter_pregrasp arm_jmg =
     (if possible_grasps = [] then Inr (False, st, filtered_grasps, [ROS_ERROR VectorIsEmpty])
      else
        (let st1 = st\<lparr>solver_timeout_' := getDefaultIKTimeout arm_jmg,
                      num_variables_' := getVariableCount arm_jmg\<rparr>
         in if length (getAttachedEndEffectorNames arm_jmg) = 0 then
              Inr (False, st1, filtered_grasps, [ROS_ERROR NoEndEffectorsAttached])
            else if length (getAttachedEndEffectorNames arm_jmg) > 1 then
              Inr (False, st1, filtered_grasps, [ROS_ERROR MoreThanOneEndEffectors])
            else
              (let ee_jmg = getJointModelGroup arm_jmg (getAttachedEndEffectorNames arm_jmg ! 0)
               in case filterGraspsHelper sv st1 possible_grasps [] filter_pregrasp ee_jmg
                         arm_jmg False of
                    Inl f \<Rightarrow> Inl f
                  | Inr (result, st2, filtered_grasps2, out) \<Rightarrow>
                      if \<not> result \<or> length filtered_grasps2 = 0 then
                        (case filterGraspsHelper sv st2 possible_grasps filtered_grasps2
                                filter_pregrasp ee_jmg arm_jmg True of
                           Inl f \<Rightarrow> Inl f
                         | Inr (result', st3, filtered_grasps3, out') \<Rightarrow>
                             Inr (result', st3, filtered_grasps3,
                                  out @ [ROS_ERROR RerunningInVerboseMode] @ out'))
                      else Inr (result, st2, filtered_grasps2, out))))"

section \<open>Notions of the specification\<close>

subsection \<open>Reading a result\<close>

text \<open>The solution vector and the output in the result of a stage B function.\<close>

definition pruned :: "bool \<times> 's \<times> GraspSolution list \<times> event list \<Rightarrow> GraspSolution list" where
  "pruned r = fst (snd (snd r))"

definition console :: "bool \<times> 's \<times> GraspSolution list \<times> event list \<Rightarrow> event list" where
  "console r = snd (snd (snd r))"

text \<open>
  The worker counts that the runs of stage A announce, one per run of
  \<^verbatim>\<open>filterGraspsHelper\<close>, and the counts of valid grasps that the passes of stage B
  report, one per run of \<^verbatim>\<open>filterGraspsInCollisionHelper\<close>.
\<close>

fun stage_runs :: "event list \<Rightarrow> nat list" where
  "stage_runs [] = []"
| "stage_runs (ROS_INFO (FilteringWithThreads n) # es) = n # stage_runs es"
| "stage_runs (e # es) = stage_runs es"

fun pass_reports :: "event list \<Rightarrow> nat list" where
  "pass_reports [] = []"
| "pass_reports (ROS_INFO (AfterCollisionChecking n) # es) = n # pass_reports es"
| "pass_reports (e # es) = pass_reports es"

subsection \<open>Stage A\<close>

text \<open>
  The worker's view of its partition, as the specification words it. The seed state with
  which the worker reaches the \<open>k\<close>-th candidate of its range: zeros at the start, then
  the solution of the last grasp pose that the solver solved. The two calls of the solver
  for the candidate at index \<open>i\<close>, and the candidate's acceptance: the grasp call
  succeeds and, when pre-grasps are filtered, the pre-grasp call succeeds too.
\<close>

definition grasp_ik_pose :: "IkThreadStruct \<Rightarrow> nat \<Rightarrow> Pose" where
  "grasp_ik_pose ts i = link_transform_' ts (pose (grasp_pose (possible_grasps_' ts ! i)))"

fun seed_state_at :: "KinematicsBase \<Rightarrow> nat \<Rightarrow> IkThreadStruct \<Rightarrow> nat \<Rightarrow> joints" where
  "seed_state_at solver num_variables ts 0 = replicate num_variables 0"
| "seed_state_at solver num_variables ts (Suc k) =
     (let seed = seed_state_at solver num_variables ts k;
          (solution, error_code) =
            searchPositionIK solver (grasp_ik_pose ts (grasps_id_start_' ts + k)) seed (timeout_' ts)
      in if error_code = SUCCESS then solution else seed)"

definition grasp_ik :: "KinematicsBase \<Rightarrow> nat \<Rightarrow> IkThreadStruct \<Rightarrow> nat \<Rightarrow> joints \<times> int" where
  "grasp_ik solver num_variables ts i =
     searchPositionIK solver (grasp_ik_pose ts i)
       (seed_state_at solver num_variables ts (i - grasps_id_start_' ts)) (timeout_' ts)"

definition pregrasp_ik ::
  "(Grasp \<Rightarrow> string \<Rightarrow> PoseStamped) \<Rightarrow> KinematicsBase \<Rightarrow> EndEffectorGroup \<Rightarrow> nat \<Rightarrow>
   IkThreadStruct \<Rightarrow> nat \<Rightarrow> joints \<times> int" where
  "pregrasp_ik getPreGraspPose' solver ee num_variables ts i =
     searchPositionIK solver
       (link_transform_' ts
          (pose (getPreGraspPose' (possible_grasps_' ts ! i) (snd (getEndEffectorParentGroup ee)))))
       (fst (grasp_ik solver num_variables ts i)) (timeout_' ts)"

definition accepted ::
  "(Grasp \<Rightarrow> string \<Rightarrow> PoseStamped) \<Rightarrow> KinematicsBase \<Rightarrow> EndEffectorGroup \<Rightarrow> nat \<Rightarrow>
   IkThreadStruct \<Rightarrow> nat \<Rightarrow> bool" where
  "accepted getPreGraspPose' solver ee num_variables ts i \<longleftrightarrow>
     snd (grasp_ik solver num_variables ts i) = SUCCESS \<and>
     (filter_pregrasp_' ts \<longrightarrow>
        snd (pregrasp_ik getPreGraspPose' solver ee num_variables ts i) = SUCCESS)"

definition solution_of ::
  "(Grasp \<Rightarrow> string \<Rightarrow> PoseStamped) \<Rightarrow> KinematicsBase \<Rightarrow> EndEffectorGroup \<Rightarrow> nat \<Rightarrow>
   IkThreadStruct \<Rightarrow> nat \<Rightarrow> GraspSolution" where
  "solution_of getPreGraspPose' solver ee num_variables ts i =
     \<lparr>grasp_' = possible_grasps_' ts ! i,
      grasp_ik_solution_' = fst (grasp_ik solver num_variables ts i),
      pregrasp_ik_solution_' =
        (if filter_pregrasp_' ts
         then fst (pregrasp_ik getPreGraspPose' solver ee num_variables ts i) else [])\<rparr>"

text \<open>
  The \<open>j\<close>-th boundary between the ranges, as the loop of \<^verbatim>\<open>filterGraspsHelper\<close>
  computes it: the ceiling of the rounded product of the rounded share and \<open>j\<close>, cut at
  the candidate count.
\<close>

definition range_end :: "nat \<Rightarrow> nat \<Rightarrow> nat \<Rightarrow> nat" where
  "range_end size' num_threads j =
     (let e = nat \<lceil>binary64 (binary64 (real size' / real num_threads) * real j)\<rceil>
      in if e \<ge> size' then size' else e)"

text \<open>
  The fourth way for stage A to fail: the base frame of the first solver is not the
  frame of the robot model, and the robot state has no link of that name.
\<close>

definition frame_link_missing ::
  "('rs, 'l) ik_services \<Rightarrow> 'rs GraspFilter \<Rightarrow> JointModelGroup \<Rightarrow> bool" where
  "frame_link_missing sv st arm_jmg =
     (case kin_solvers_' st (getName arm_jmg) of
        Some solver # _ \<Rightarrow>
          \<not> sameFrame sv (getBaseFrame solver) (getModelFrame sv (robot_state_' st)) \<and>
          getLinkModel sv (robot_state_' st) (link_name (getBaseFrame solver)) = None
      | _ \<Rightarrow> False)"

subsection \<open>Stage B\<close>

text \<open>
  \<^verbatim>\<open>setJointGroupPositions\<close> writes all the positions of the arm's group: a second call
  leaves nothing of the first. Under this contract the test of a solution depends on its
  grasp configuration alone, and \<open>colliding\<close> is that test.
\<close>

definition overwrites :: "('rs, 'sc) collision_services \<Rightarrow> JointModelGroup \<Rightarrow> bool" where
  "overwrites cs arm_jmg \<longleftrightarrow>
     (\<forall>s a b. setJointGroupPositions cs (setJointGroupPositions cs s arm_jmg a) arm_jmg b
              = setJointGroupPositions cs s arm_jmg b)"

definition colliding ::
  "('rs, 'sc) collision_services \<Rightarrow> 'sc \<Rightarrow> JointModelGroup \<Rightarrow> 'rs \<Rightarrow> bool \<Rightarrow> GraspSolution \<Rightarrow> bool" where
  "colliding cs scene arm_jmg robot_state verbose g \<longleftrightarrow>
     isStateColliding cs scene
       (setJointGroupPositions cs robot_state arm_jmg (grasp_ik_solution_' g))
       (getName arm_jmg) verbose"

section \<open>Concrete inputs\<close>

text \<open>
  A grasp at \<open>(v, 0, 0)\<close> whose orientation is the unit quaternion
  \<open>(x, y, z, w) = (1/2, -1/2, 1/2, 1/2)\<close>, and a solution for it with the one joint
  value \<open>v\<close>.
\<close>

definition ex_grasp :: "real \<Rightarrow> Grasp" where
  "ex_grasp v =
     \<lparr>grasp_id = ''grasp'',
      grasp_pose = \<lparr>frame_id = ''world'',
                    pose = \<lparr>position = \<lparr>px = v, py = 0, pz = 0\<rparr>,
                            orientation = \<lparr>qx = 1 / 2, qy = - 1 / 2, qz = 1 / 2, qw = 1 / 2\<rparr>\<rparr>\<rparr>,
      grasp_quality = 1\<rparr>"

definition ex_solution :: "real \<Rightarrow> GraspSolution" where
  "ex_solution v =
     \<lparr>grasp_' = ex_grasp v, grasp_ik_solution_' = [v], pregrasp_ik_solution_' = []\<rparr>"

text \<open>
  A solver with the base frame \<open>frame\<close> that solves the poses with a positive \<open>x\<close>, and
  an arm with one end effector.
\<close>

definition ex_solver :: "string \<Rightarrow> KinematicsBase" where
  "ex_solver frame =
     \<lparr>getBaseFrame = frame,
      searchPositionIK =
        (\<lambda>p seed timeout. if px (position p) > 0 then ([px (position p)], SUCCESS)
                           else ([], NO_IK_SOLUTION))\<rparr>"

definition ex_gripper :: EndEffectorGroup where
  "ex_gripper = \<lparr>getEndEffectorParentGroup = (''arm'', ''link_6'')\<rparr>"

definition ex_arm :: "KinematicsBase option \<Rightarrow> JointModelGroup" where
  "ex_arm solver =
     \<lparr>getName = ''arm'', getDefaultIKTimeout = 1 / 20, getVariableCount = 1,
      getAttachedEndEffectorNames = [''gripper''], getSolverInstance = solver,
      getJointModelGroup = (\<lambda>name. if name = ''gripper'' then Some ex_gripper else None)\<rparr>"

text \<open>
  Two cores, a robot model in the frame \<open>world\<close> and a robot state that knows no link by
  name. The robot state is the vector of the arm's joint values.
\<close>

definition ex_ik_services :: "(joints, unit) ik_services" where
  "ex_ik_services =
     \<lparr>hardware_concurrency = 2, sameFrame = (\<lambda>a b. a = b), getModelFrame = (\<lambda>rs. ''world''),
      getLinkModel = (\<lambda>rs name. None), getGlobalLinkTransform_inverse = (\<lambda>rs lm p. p),
      uninitialized_Affine3d = (\<lambda>p. p), getPreGraspPose = (\<lambda>g link. grasp_pose g)\<rparr>"

definition ex_filter :: "joints GraspFilter" where
  "ex_filter =
     \<lparr>robot_state_' = [], kin_solvers_' = (\<lambda>name. []), solver_timeout_' = 0, num_variables_' = 0\<rparr>"

definition ex_thread :: IkThreadStruct where
  "ex_thread =
     \<lparr>possible_grasps_' = [ex_grasp 1, ex_grasp 0, ex_grasp 2], link_transform_' = (\<lambda>p. p),
      grasps_id_start_' = 0, grasps_id_end_' = 3, kin_solver_' = Some (ex_solver ''world''),
      filter_pregrasp_' = True, ee_jmg_' = Some ex_gripper, timeout_' = 1 / 20,
      verbose_' = False, thread_id_' = 0\<rparr>"

text \<open>
  A collision checker that reports the states whose first joint value is above \<open>1\<close>, and
  one that reports every state unless it is asked to be verbose.
\<close>

definition ex_collision_services :: "(joints, unit) collision_services" where
  "ex_collision_services =
     \<lparr>setJointGroupPositions = (\<lambda>rs arm_jmg a. a),
      isStateColliding = (\<lambda>scene rs name verbose. rs \<noteq> [] \<and> rs ! 0 > 1)\<rparr>"

definition ex_quiet_collision_services :: "(joints, unit) collision_services" where
  "ex_quiet_collision_services =
     \<lparr>setJointGroupPositions = (\<lambda>rs arm_jmg a. a),
      isStateColliding = (\<lambda>scene rs name verbose. \<not> verbose)\<rparr>"

section \<open>Selection\<close>

lemma chooseBestGrasp_loop_below:
  "\<forall>s\<in>set xs. \<exists>v. yall s = Some v \<and> v \<le> m \<Longrightarrow>
   chooseBestGrasp_loop xs (m, chosen) = (m, chosen)"
  by (induction xs) auto

lemma yall_ex_solution: "yall (ex_solution v) = Some (- (pi / 2))"
  by (simp add: yall_def ex_solution_def ex_grasp_def asin_def arcsin_minus_1)

lemma half_pi_ge_1: "1 \<le> pi / 2"
  using pi_ge_two by simp

text \<open>
  C9. For a non-empty list in which every solution has a yaw angle and that angle is at
  most \<open>-1\<close>, \<^verbatim>\<open>chooseBestGrasp\<close> returns true and \<^verbatim>\<open>chosen\<close> is what the caller passed:
  no turn of the loop assigns it, and the quality it reports is still the initial
  \<open>-1\<close>. That initial value lies in the range \<open>[-\<pi>/2, \<pi>/2]\<close> of the inverse sine.
\<close>

theorem chooseBestGrasp_leaves_chosen:
  assumes "filtered_grasps \<noteq> []"
    and "\<forall>s\<in>set filtered_grasps. \<exists>v. yall s = Some v \<and> v \<le> - 1"
  shows "chooseBestGrasp filtered_grasps chosen
           = (True, chosen, [ROS_INFO (ChoseGraspWithQuality (- 1))])
         \<and> - (pi / 2) \<le> (- 1 :: real) \<and> (- 1 :: real) \<le> pi / 2"
proof -
  have "chooseBestGrasp_loop filtered_grasps (- 1, chosen) = (- 1, chosen)"
    using assms(2) by (rule chooseBestGrasp_loop_below)
  moreover have "- (pi / 2) \<le> (- 1 :: real)" "(- 1 :: real) \<le> pi / 2"
    using half_pi_ge_1 by simp_all
  ultimately show ?thesis
    using assms(1) by (simp add: chooseBestGrasp_def)
qed

theorem chooseBestGrasp_leaves_chosen_witness:
  "[ex_solution 1, ex_solution 2] \<noteq> []
   \<and> yall (ex_solution 1) = Some (- (pi / 2)) \<and> yall (ex_solution 2) = Some (- (pi / 2))
   \<and> - (pi / 2) \<le> (- 1 :: real)
   \<and> chooseBestGrasp [ex_solution 1, ex_solution 2] (ex_solution 0)
       = (True, ex_solution 0, [ROS_INFO (ChoseGraspWithQuality (- 1))])"
proof -
  have h: "\<forall>s\<in>set [ex_solution 1, ex_solution 2]. \<exists>v. yall s = Some v \<and> v \<le> - 1"
    using half_pi_ge_1 by (simp add: yall_ex_solution)
  have ne: "[ex_solution 1, ex_solution 2] \<noteq> []" by simp
  show ?thesis
    using chooseBestGrasp_leaves_chosen[OF ne h, of "ex_solution 0"] half_pi_ge_1
    by (simp add: yall_ex_solution)
qed

text \<open>
  C7, on the input that breaks it. The list holds one solution, so that solution is the
  one of greatest yaw; its yaw is \<open>-\<pi>/2\<close>, below the initial \<open>-1\<close>. The call returns
  true, and \<^verbatim>\<open>chosen\<close> is still the other solution that the caller passed.
\<close>

theorem chooseBestGrasp_sentinel_misses_maximum:
  "chooseBestGrasp [ex_solution 1] (ex_solution 0)
     = (True, ex_solution 0, [ROS_INFO (ChoseGraspWithQuality (- 1))])
   \<and> ex_solution 0 \<noteq> ex_solution 1
   \<and> yall (ex_solution 1) = Some (- (pi / 2))"
proof -
  have "chooseBestGrasp_loop [ex_solution 1] (- 1, ex_solution 0) = (- 1, ex_solution 0)"
    using half_pi_ge_1 by (simp add: yall_ex_solution)
  moreover have "ex_solution 0 \<noteq> ex_solution 1"
    by (simp add: ex_solution_def)
  ultimately show ?thesis
    by (simp add: chooseBestGrasp_def yall_ex_solution)
qed

text \<open>
  Apart from that input: when some solution has a yaw angle above \<open>-1\<close>, the call
  returns true with a solution of the list whose yaw angle is the greatest.
\<close>

lemma chooseBestGrasp_loop_maximum:
  "chooseBestGrasp_loop xs (m, c) = (m', c') \<Longrightarrow>
     (\<forall>s\<in>set xs. \<forall>v. yall s = Some v \<longrightarrow> v \<le> m') \<and> m \<le> m'
     \<and> ((m', c') = (m, c) \<or> (c' \<in> set xs \<and> yall c' = Some m'))"
proof (induction xs arbitrary: m c)
  case Nil
  then show ?case by simp
next
  case (Cons s xs)
  show ?case
  proof (cases "yall s")
    case None
    with Cons.prems have "chooseBestGrasp_loop xs (m, c) = (m', c')" by simp
    from Cons.IH[OF this] None show ?thesis by auto
  next
    case (Some v)
    show ?thesis
    proof (cases "v > m")
      case True
      with Cons.prems Some have "chooseBestGrasp_loop xs (v, s) = (m', c')" by simp
      from Cons.IH[OF this] Some True show ?thesis by auto
    next
      case False
      with Cons.prems Some have "chooseBestGrasp_loop xs (m, c) = (m', c')" by simp
      from Cons.IH[OF this] Some False show ?thesis by auto
    qed
  qed
qed

lemma chooseBestGrasp_selects_maximum:
  assumes "s0 \<in> set xs" "yall s0 = Some v0" "v0 > - 1"
  shows "\<exists>m c'. chooseBestGrasp xs c = (True, c', [ROS_INFO (ChoseGraspWithQuality m)])
           \<and> c' \<in> set xs \<and> yall c' = Some m
           \<and> (\<forall>s\<in>set xs. \<forall>v. yall s = Some v \<longrightarrow> v \<le> m)"
proof -
  obtain m' c' where l: "chooseBestGrasp_loop xs (- 1, c) = (m', c')"
    by (cases "chooseBestGrasp_loop xs (- 1, c)")
  from chooseBestGrasp_loop_maximum[OF l] have
    mx: "\<forall>s\<in>set xs. \<forall>v. yall s = Some v \<longrightarrow> v \<le> m'" and
    d: "(m', c') = (- 1, c) \<or> (c' \<in> set xs \<and> yall c' = Some m')" by simp_all
  from mx assms have "v0 \<le> m'" by blast
  with assms(3) d have "c' \<in> set xs \<and> yall c' = Some m'" by auto
  moreover have "xs \<noteq> []" using assms(1) by auto
  ultimately show ?thesis using l mx by (simp add: chooseBestGrasp_def)
qed

text \<open>The yaw angle of a solution does not depend on its \<^verbatim>\<open>grasp_quality\<close>.\<close>

lemma yall_ignores_quality:
  "yall (s\<lparr>grasp_' := (grasp_' s)\<lparr>grasp_quality := q\<rparr>\<rparr>) = yall s"
  by (simp add: yall_def)

section \<open>Stage B: collision pruning\<close>

declare filterGraspsInCollisionHelper_loop.simps [simp del]

lemma erase_take: "i < length xs \<Longrightarrow> take i (erase xs i) = take i xs"
  by (simp add: erase_def)

lemma erase_drop: "i < length xs \<Longrightarrow> drop i (erase xs i) = drop (Suc i) xs"
  by (simp add: erase_def)

lemma erase_length: "i < length xs \<Longrightarrow> length (erase xs i) = length xs - 1"
  by (simp add: erase_def)

lemma loop_filter:
  "overwrites cs arm \<Longrightarrow>
   \<forall>a. setJointGroupPositions cs rs arm a = setJointGroupPositions cs rs0 arm a \<Longrightarrow>
   fst (snd (filterGraspsInCollisionHelper_loop cs sc arm v (rs, xs, out) i))
         = take i xs @ filter (\<lambda>g. \<not> colliding cs sc arm rs0 v g) (drop i xs)"
proof (induction cs sc arm v "(rs, xs, out)" i arbitrary: rs xs out rule: filterGraspsInCollisionHelper_loop.induct)
  case (1 cs sc arm v rs xs out i)
  show ?case
  proof (cases "i < length xs")
    case False
    then show ?thesis by (simp add: filterGraspsInCollisionHelper_loop.simps)
  next
    case True
    let ?rs' = "setJointGroupPositions cs rs arm (grasp_ik_solution_' (xs ! i))"
    have inv': "\<forall>a. setJointGroupPositions cs ?rs' arm a = setJointGroupPositions cs rs0 arm a"
      using "1.prems" by (simp add: overwrites_def)
    have eq: "?rs' = setJointGroupPositions cs rs0 arm (grasp_ik_solution_' (xs ! i))"
      using "1.prems"(2) by simp
    have dr: "drop i xs = xs ! i # drop (Suc i) xs"
      using True by (simp add: Cons_nth_drop_Suc)
    show ?thesis
    proof (cases "isStateColliding cs sc ?rs' (getName arm) v")
      case c: True
      have "fst (snd (filterGraspsInCollisionHelper_loop cs sc arm v (rs, xs, out) i))
            = take i (erase xs i) @ filter (\<lambda>g. \<not> colliding cs sc arm rs0 v g) (drop i (erase xs i))"
        using "1.hyps"(1)[OF True refl c "1.prems"(1) inv'] True c
        by (subst filterGraspsInCollisionHelper_loop.simps) (simp add: Let_def)
      also have "\<dots> = take i xs @ filter (\<lambda>g. \<not> colliding cs sc arm rs0 v g) (drop i xs)"
        using True c eq by (simp add: erase_take erase_drop dr colliding_def)
      finally show ?thesis .
    next
      case c: False
      have "fst (snd (filterGraspsInCollisionHelper_loop cs sc arm v (rs, xs, out) i))
            = take (Suc i) xs @ filter (\<lambda>g. \<not> colliding cs sc arm rs0 v g) (drop (Suc i) xs)"
        using "1.hyps"(2)[OF True refl c "1.prems"(1) inv'] True c
        by (subst filterGraspsInCollisionHelper_loop.simps) (simp add: Let_def)
      also have "\<dots> = take i xs @ filter (\<lambda>g. \<not> colliding cs sc arm rs0 v g) (drop i xs)"
        using True c eq by (simp add: take_Suc_conv_app_nth dr colliding_def)
      finally show ?thesis .
    qed
  qed
qed

lemma loop_subseq:
  "\<exists>ys. fst (snd (filterGraspsInCollisionHelper_loop cs sc arm v (rs, xs, out) i)) = take i xs @ ys
     \<and> subseq ys (drop i xs)"
proof (induction cs sc arm v "(rs, xs, out)" i arbitrary: rs xs out rule: filterGraspsInCollisionHelper_loop.induct)
  case (1 cs sc arm v rs xs out i)
  show ?case
  proof (cases "i < length xs")
    case False
    then show ?thesis by (simp add: filterGraspsInCollisionHelper_loop.simps)
  next
    case True
    let ?rs' = "setJointGroupPositions cs rs arm (grasp_ik_solution_' (xs ! i))"
    have dr: "drop i xs = xs ! i # drop (Suc i) xs"
      using True by (simp add: Cons_nth_drop_Suc)
    show ?thesis
    proof (cases "isStateColliding cs sc ?rs' (getName arm) v")
      case c: True
      from "1.hyps"(1)[OF True refl c] obtain ys where
        ys: "fst (snd (filterGraspsInCollisionHelper_loop cs sc arm v (?rs', erase xs i,
               out @ (if v then [ROS_INFO GraspSolutionColliding, publishRobotState,
                              publishContactPoints, sleep 4] else [])) i)) = take i (erase xs i) @ ys"
          "subseq ys (drop i (erase xs i))" by blast
      have "fst (snd (filterGraspsInCollisionHelper_loop cs sc arm v (rs, xs, out) i)) = take i xs @ ys"
        using ys(1) True c
        by (subst filterGraspsInCollisionHelper_loop.simps) (simp add: Let_def erase_take)
      moreover have "subseq ys (drop i xs)"
        using ys(2) True by (simp add: erase_drop dr list_emb_Cons)
      ultimately show ?thesis by blast
    next
      case c: False
      from "1.hyps"(2)[OF True refl c] obtain ys where
        ys: "fst (snd (filterGraspsInCollisionHelper_loop cs sc arm v (?rs', xs, out) (Suc i))) = take (Suc i) xs @ ys"
          "subseq ys (drop (Suc i) xs)" by blast
      have "fst (snd (filterGraspsInCollisionHelper_loop cs sc arm v (rs, xs, out) i)) = take i xs @ (xs ! i # ys)"
        using ys(1) True c
        by (subst filterGraspsInCollisionHelper_loop.simps) (simp add: Let_def take_Suc_conv_app_nth)
      moreover have "subseq (xs ! i # ys) (drop i xs)"
        using ys(2) by (simp add: dr)
      ultimately show ?thesis by blast
    qed
  qed
qed

lemma pass_reports_append: "pass_reports (a @ b) = pass_reports a @ pass_reports b"
  by (induction a rule: pass_reports.induct) simp_all

lemma erase_map: "erase (map f xs) i = map f (erase xs i)"
  by (simp add: erase_def take_map drop_map)

lemma loop_pass_reports:
  "pass_reports (snd (snd (filterGraspsInCollisionHelper_loop cs sc arm v (rs, xs, out) i)))
   = pass_reports out"
proof (induction cs sc arm v "(rs, xs, out)" i arbitrary: rs xs out
       rule: filterGraspsInCollisionHelper_loop.induct)
  case (1 cs sc arm v rs xs out i)
  show ?case
  proof (cases "i < length xs")
    case False
    then show ?thesis by (simp add: filterGraspsInCollisionHelper_loop.simps)
  next
    case True
    let ?rs' = "setJointGroupPositions cs rs arm (grasp_ik_solution_' (xs ! i))"
    show ?thesis
    proof (cases "isStateColliding cs sc ?rs' (getName arm) v")
      case c: True
      show ?thesis
        using "1.hyps"(1)[OF True refl c] True c
        by (subst filterGraspsInCollisionHelper_loop.simps)
           (simp add: Let_def pass_reports_append)
    next
      case c: False
      show ?thesis
        using "1.hyps"(2)[OF True refl c] True c
        by (subst filterGraspsInCollisionHelper_loop.simps) (simp add: Let_def)
    qed
  qed
qed

lemma loop_ignores_pregrasp:
  "fst (snd (filterGraspsInCollisionHelper_loop cs sc arm v
               (rs, map (pregrasp_ik_solution_'_update f) xs, out) i))
   = map (pregrasp_ik_solution_'_update f)
       (fst (snd (filterGraspsInCollisionHelper_loop cs sc arm v (rs, xs, out') i)))"
proof (induction cs sc arm v "(rs, xs, out')" i arbitrary: rs xs out out'
       rule: filterGraspsInCollisionHelper_loop.induct)
  case (1 cs sc arm v rs xs out' i)
  show ?case
  proof (cases "i < length xs")
    case False
    then show ?thesis by (simp add: filterGraspsInCollisionHelper_loop.simps)
  next
    case True
    let ?rs' = "setJointGroupPositions cs rs arm (grasp_ik_solution_' (xs ! i))"
    show ?thesis
    proof (cases "isStateColliding cs sc ?rs' (getName arm) v")
      case c: True
      show ?thesis
        using "1.hyps"(1)[OF True refl c] True c
        by (subst (1 2) filterGraspsInCollisionHelper_loop.simps)
           (simp add: Let_def erase_map)
    next
      case c: False
      show ?thesis
        using "1.hyps"(2)[OF True refl c] True c
        by (subst (1 2) filterGraspsInCollisionHelper_loop.simps) (simp add: Let_def)
    qed
  qed
qed

lemma helper_unfold:
  "filterGraspsInCollisionHelper cs st xs sc arm rs v =
     (True,
      st\<lparr>robot_state_' := fst (filterGraspsInCollisionHelper_loop cs sc arm v (rs, xs, []) 0)\<rparr>,
      fst (snd (filterGraspsInCollisionHelper_loop cs sc arm v (rs, xs, []) 0)),
      snd (snd (filterGraspsInCollisionHelper_loop cs sc arm v (rs, xs, []) 0))
        @ [ROS_INFO (AfterCollisionChecking
             (length (fst (snd (filterGraspsInCollisionHelper_loop cs sc arm v (rs, xs, []) 0)))))]
        @ (if v then [hideRobot] else []))"
  by (simp add: filterGraspsInCollisionHelper_def split: prod.splits)

lemma helper_pruned_filter:
  "overwrites cs arm \<Longrightarrow>
   pruned (filterGraspsInCollisionHelper cs st xs sc arm rs v)
     = filter (\<lambda>g. \<not> colliding cs sc arm rs v g) xs"
  using loop_filter[of cs arm rs rs sc v xs "[]" 0]
  by (simp add: helper_unfold pruned_def)

lemma helper_pruned_subseq:
  "subseq (pruned (filterGraspsInCollisionHelper cs st xs sc arm rs v)) xs"
  using loop_subseq[of cs sc arm v rs xs "[]" 0]
  by (auto simp add: helper_unfold pruned_def)

lemma helper_pass_reports:
  "pass_reports (console (filterGraspsInCollisionHelper cs st xs sc arm rs v))
     = [length (pruned (filterGraspsInCollisionHelper cs st xs sc arm rs v))]"
  by (simp add: helper_unfold pruned_def console_def pass_reports_append loop_pass_reports)

lemma helper_ignores_pregrasp:
  "pruned (filterGraspsInCollisionHelper cs st (map (pregrasp_ik_solution_'_update f) xs) sc arm rs v)
     = map (pregrasp_ik_solution_'_update f)
         (pruned (filterGraspsInCollisionHelper cs st xs sc arm rs v))"
  using loop_ignores_pregrasp[of cs sc arm v rs f xs "[]" 0 "[]"]
  by (simp add: helper_unfold pruned_def)

lemma collision_unfold:
  assumes "xs \<noteq> []"
  shows "filterGraspsInCollision cs st xs sc arm rs v =
    (let r1 = filterGraspsInCollisionHelper cs st xs sc arm rs v
     in if pruned r1 = [] \<and> \<not> v then
          (let r2 = filterGraspsInCollisionHelper cs (fst (snd r1)) xs sc arm rs True
           in (True, fst (snd r2), pruned r1,
               console r1 @ [ROS_WARN AllGraspsFilteredDueToCollision,
                             ROS_WARN RerunningInDebugMode] @ console r2))
        else (True, fst (snd r1), pruned r1, console r1))"
  using assms
  by (cases v) (simp_all add: filterGraspsInCollision_def Let_def helper_unfold pruned_def console_def)

lemma collision_pass_reports:
  assumes "xs \<noteq> []"
  shows "pass_reports (console (filterGraspsInCollision cs st xs sc arm rs v)) =
    (if pruned (filterGraspsInCollisionHelper cs st xs sc arm rs v) = [] \<and> \<not> v
     then [0, length (pruned (filterGraspsInCollisionHelper cs
                 (fst (snd (filterGraspsInCollisionHelper cs st xs sc arm rs v))) xs sc arm rs True))]
     else [length (pruned (filterGraspsInCollisionHelper cs st xs sc arm rs v))])"
  using assms
  by (cases v)
     (simp_all add: collision_unfold Let_def console_def[of "(a, b)" for a b]
        pass_reports_append helper_pass_reports)

lemma ex_overwrites:
  "overwrites ex_collision_services arm" "overwrites ex_quiet_collision_services arm"
  by (simp_all add: overwrites_def ex_collision_services_def ex_quiet_collision_services_def)

lemma ex_colliding:
  "colliding ex_collision_services sc arm rs v (ex_solution a) \<longleftrightarrow> a > 1"
  "colliding ex_quiet_collision_services sc arm rs v g \<longleftrightarrow> \<not> v"
  by (simp_all add: colliding_def ex_collision_services_def ex_quiet_collision_services_def
        ex_solution_def)

text \<open>
  C2. \<^verbatim>\<open>filterGraspsInCollisionHelper\<close> returns true and leaves in the vector a
  subsequence of what it was given, so never more solutions than before and in their
  order. Changing the pre-grasp configurations of the solutions changes nothing but those
  configurations in the result: the helper does not read them. Where
  \<^verbatim>\<open>setJointGroupPositions\<close> overwrites the arm's positions, the result is exactly the
  solutions whose grasp configuration the scene does not report as colliding for the
  arm's group.
\<close>

theorem filterGraspsInCollisionHelper_prunes:
  "fst (filterGraspsInCollisionHelper cs st xs sc arm rs v) = True
   \<and> subseq (pruned (filterGraspsInCollisionHelper cs st xs sc arm rs v)) xs
   \<and> length (pruned (filterGraspsInCollisionHelper cs st xs sc arm rs v)) \<le> length xs
   \<and> pruned (filterGraspsInCollisionHelper cs st (map (pregrasp_ik_solution_'_update f) xs) sc arm rs v)
       = map (pregrasp_ik_solution_'_update f)
           (pruned (filterGraspsInCollisionHelper cs st xs sc arm rs v))
   \<and> (overwrites cs arm \<longrightarrow>
        pruned (filterGraspsInCollisionHelper cs st xs sc arm rs v)
          = filter (\<lambda>g. \<not> colliding cs sc arm rs v g) xs)"
proof -
  have "length (pruned (filterGraspsInCollisionHelper cs st xs sc arm rs v)) \<le> length xs"
    using helper_pruned_subseq[of cs st xs sc arm rs v] by (rule list_emb_length)
  then show ?thesis
    by (simp add: helper_pruned_subseq helper_ignores_pregrasp helper_pruned_filter)
       (simp add: helper_unfold)
qed

theorem filterGraspsInCollisionHelper_prunes_witness:
  "overwrites ex_collision_services (ex_arm None)
   \<and> pruned (filterGraspsInCollisionHelper ex_collision_services ex_filter
        [ex_solution 1, ex_solution 2, ex_solution 0, ex_solution 3] () (ex_arm None) [] False)
     = [ex_solution 1, ex_solution 0]"
  using filterGraspsInCollisionHelper_prunes[of ex_collision_services ex_filter
      "[ex_solution 1, ex_solution 2, ex_solution 0, ex_solution 3]" "()" "ex_arm None" "[]" False]
  by (simp add: ex_overwrites ex_colliding)

text \<open>
  C8. Where \<^verbatim>\<open>setJointGroupPositions\<close> overwrites the arm's positions: a vector none of
  whose solutions is reported as colliding comes back as it was, and pruning the result
  of a pruning again, with the same scene and robot state, gives that result.
\<close>

theorem filterGraspsInCollisionHelper_idempotent:
  assumes "overwrites cs arm"
  shows "((\<forall>g\<in>set xs. \<not> colliding cs sc arm rs v g) \<longrightarrow>
            pruned (filterGraspsInCollisionHelper cs st xs sc arm rs v) = xs)
       \<and> pruned (filterGraspsInCollisionHelper cs st'
            (pruned (filterGraspsInCollisionHelper cs st xs sc arm rs v)) sc arm rs v)
         = pruned (filterGraspsInCollisionHelper cs st xs sc arm rs v)"
  using assms by (simp add: helper_pruned_filter)

theorem filterGraspsInCollisionHelper_idempotent_witness:
  "overwrites ex_collision_services (ex_arm None)
   \<and> \<not> colliding ex_collision_services () (ex_arm None) [] False (ex_solution 1)
   \<and> \<not> colliding ex_collision_services () (ex_arm None) [] False (ex_solution 0)
   \<and> pruned (filterGraspsInCollisionHelper ex_collision_services ex_filter
        [ex_solution 1, ex_solution 0] () (ex_arm None) [] False)
     = [ex_solution 1, ex_solution 0]"
  using filterGraspsInCollisionHelper_idempotent[of ex_collision_services "ex_arm None"
      "[ex_solution 1, ex_solution 0]" "()" "[]" False ex_filter ex_filter]
  by (simp add: ex_overwrites ex_colliding)

text \<open>
  C6, as amended. For a non-empty vector from which the first pass removes every
  solution: when the caller did not ask for verbose output, the call is the first pass
  followed by the two warnings and by one more pass of the same helper over the vector as
  it was given, verbose, with the same services, scene and robot state, so that two passes
  report; when the caller asked for verbose output, one pass reports and there is no
  second.
\<close>

theorem filterGraspsInCollision_rerun:
  assumes "xs \<noteq> []"
    and "pruned (filterGraspsInCollisionHelper cs st xs sc arm rs v) = []"
  shows "(\<not> v \<longrightarrow>
            filterGraspsInCollision cs st xs sc arm rs v =
              (True,
               fst (snd (filterGraspsInCollisionHelper cs
                  (fst (snd (filterGraspsInCollisionHelper cs st xs sc arm rs False)))
                  xs sc arm rs True)),
               [],
               console (filterGraspsInCollisionHelper cs st xs sc arm rs False)
               @ [ROS_WARN AllGraspsFilteredDueToCollision, ROS_WARN RerunningInDebugMode]
               @ console (filterGraspsInCollisionHelper cs
                  (fst (snd (filterGraspsInCollisionHelper cs st xs sc arm rs False)))
                  xs sc arm rs True))
            \<and> length (pass_reports (console (filterGraspsInCollision cs st xs sc arm rs v))) = 2)
       \<and> (v \<longrightarrow> length (pass_reports (console (filterGraspsInCollision cs st xs sc arm rs v))) = 1)"
  using assms
  by (cases v)
     (simp_all add: collision_unfold Let_def console_def[of "(a, b)" for a b]
        pruned_def[of "(a, b)" for a b] pass_reports_append helper_pass_reports)

theorem filterGraspsInCollision_rerun_witness:
  "[ex_solution 2, ex_solution 3] \<noteq> []
   \<and> pruned (filterGraspsInCollisionHelper ex_collision_services ex_filter
        [ex_solution 2, ex_solution 3] () (ex_arm None) [] False) = []
   \<and> length (pass_reports (console (filterGraspsInCollision ex_collision_services ex_filter
        [ex_solution 2, ex_solution 3] () (ex_arm None) [] False))) = 2"
proof -
  have e: "pruned (filterGraspsInCollisionHelper ex_collision_services ex_filter
        [ex_solution 2, ex_solution 3] () (ex_arm None) [] False) = []"
    by (simp add: helper_pruned_filter ex_overwrites ex_colliding)
  have ne: "[ex_solution 2, ex_solution 3] \<noteq> []" by simp
  have "length (pass_reports (console (filterGraspsInCollision ex_collision_services ex_filter
        [ex_solution 2, ex_solution 3] () (ex_arm None) [] False))) = 2"
    using filterGraspsInCollision_rerun[OF ne e] by blast
  with ne e show ?thesis by blast
qed

text \<open>
  The claim as it was stated fails for a caller that asks for verbose output: the one
  solution is removed, and one pass reports.
\<close>

theorem filterGraspsInCollision_rerun_counterexample:
  "[ex_solution 2] \<noteq> []
   \<and> pruned (filterGraspsInCollisionHelper ex_collision_services ex_filter
        [ex_solution 2] () (ex_arm None) [] True) = []
   \<and> pass_reports (console (filterGraspsInCollision ex_collision_services ex_filter
        [ex_solution 2] () (ex_arm None) [] True)) = [0]"
  by (simp add: collision_pass_reports helper_pruned_filter ex_overwrites ex_colliding)

text \<open>
  C10. When the first pass empties a non-empty vector and the caller did not ask for
  verbose output, the second pass is announced, the call returns true and the caller's
  vector is empty, whatever the second pass keeps of its copy.
\<close>

theorem filterGraspsInCollision_rerun_on_copy:
  assumes "xs \<noteq> []" "\<not> v"
    and "pruned (filterGraspsInCollisionHelper cs st xs sc arm rs v) = []"
  shows "pruned (filterGraspsInCollision cs st xs sc arm rs v) = []
       \<and> fst (filterGraspsInCollision cs st xs sc arm rs v) = True
       \<and> ROS_WARN RerunningInDebugMode \<in> set (console (filterGraspsInCollision cs st xs sc arm rs v))"
  using assms
  by (simp add: collision_unfold Let_def console_def[of "(a, b)" for a b]
        pruned_def[of "(a, b)" for a b])

theorem filterGraspsInCollision_rerun_on_copy_witness:
  "[ex_solution 1, ex_solution 2] \<noteq> []
   \<and> pruned (filterGraspsInCollisionHelper ex_quiet_collision_services ex_filter
        [ex_solution 1, ex_solution 2] () (ex_arm None) [] False) = []
   \<and> pruned (filterGraspsInCollisionHelper ex_quiet_collision_services ex_filter
        [ex_solution 1, ex_solution 2] () (ex_arm None) [] True) = [ex_solution 1, ex_solution 2]
   \<and> pruned (filterGraspsInCollision ex_quiet_collision_services ex_filter
        [ex_solution 1, ex_solution 2] () (ex_arm None) [] False) = []"
proof -
  have e: "pruned (filterGraspsInCollisionHelper ex_quiet_collision_services ex_filter
        [ex_solution 1, ex_solution 2] () (ex_arm None) [] False) = []"
    by (simp add: helper_pruned_filter ex_overwrites ex_colliding)
  have ne: "[ex_solution 1, ex_solution 2] \<noteq> []" and nv: "\<not> False" by simp_all
  show ?thesis
    using filterGraspsInCollision_rerun_on_copy[OF ne nv e] e
    by (simp add: helper_pruned_filter ex_overwrites ex_colliding)
qed

section \<open>Rounding to the nearest double\<close>

lemma rte_bounds: "\<lfloor>z\<rfloor> \<le> round_to_even z" "round_to_even z \<le> \<lfloor>z\<rfloor> + 1"
  by (simp_all add: round_to_even_def Let_def)

lemma rte_ge: "of_int m \<le> z \<Longrightarrow> m \<le> round_to_even z"
proof -
  assume "of_int m \<le> z"
  then have "m \<le> \<lfloor>z\<rfloor>" by (simp add: le_floor_iff)
  with rte_bounds(1)[of z] show ?thesis by linarith
qed

lemma rte_int: "round_to_even (of_int m) = m"
  by (simp add: round_to_even_def Let_def)

lemma rte_le: "z \<le> of_int m \<Longrightarrow> round_to_even z \<le> m"
proof (cases "z = of_int m")
  case True
  then show ?thesis by (simp add: rte_int)
next
  case False
  assume "z \<le> of_int m"
  with False have "z < of_int m" by simp
  then have "\<lfloor>z\<rfloor> < m" by (simp add: floor_less_iff)
  with rte_bounds(2)[of z] show ?thesis by linarith
qed

lemma rte_err: "\<bar>of_int (round_to_even z) - z\<bar> \<le> 1 / 2"
proof -
  have "of_int \<lfloor>z\<rfloor> \<le> z" "z < of_int \<lfloor>z\<rfloor> + 1" by linarith+
  then show ?thesis
    unfolding round_to_even_def Let_def by (auto simp: abs_le_iff)
qed

lemma rte_half_le: "z < of_int m + 1 / 2 \<Longrightarrow> round_to_even z \<le> m"
proof -
  assume a: "z < of_int m + 1 / 2"
  from a have "z < of_int (m + 1)" by simp
  then have "\<lfloor>z\<rfloor> < m + 1" by (simp only: floor_less_iff)
  then consider "\<lfloor>z\<rfloor> < m" | "\<lfloor>z\<rfloor> = m" by linarith
  then show ?thesis
  proof cases
    case 1
    with rte_bounds(2)[of z] show ?thesis by linarith
  next
    case 2
    with a have "z - of_int \<lfloor>z\<rfloor> < 1 / 2" by simp
    then have "round_to_even z = \<lfloor>z\<rfloor>" by (simp add: round_to_even_def Let_def)
    with 2 show ?thesis by simp
  qed
qed

lemma rte_le_half: "round_to_even z \<le> m \<Longrightarrow> z \<le> of_int m + 1 / 2"
proof (rule ccontr)
  assume r: "round_to_even z \<le> m" and "\<not> z \<le> of_int m + 1 / 2"
  then have a: "of_int m + 1 / 2 < z" by simp
  then have "of_int m \<le> z" by linarith
  then have "m \<le> \<lfloor>z\<rfloor>" by (simp add: le_floor_iff)
  then consider "m < \<lfloor>z\<rfloor>" | "\<lfloor>z\<rfloor> = m" by linarith
  then show False
  proof cases
    case 1
    with rte_bounds(1)[of z] r show False by linarith
  next
    case 2
    with a have "z - of_int \<lfloor>z\<rfloor> > 1 / 2" by simp
    then have "round_to_even z = \<lfloor>z\<rfloor> + 1" by (simp add: round_to_even_def Let_def)
    with 2 r show False by simp
  qed
qed

lemma rte_mono: "z \<le> z' \<Longrightarrow> round_to_even z \<le> round_to_even z'"
proof (cases "round_to_even z' < round_to_even z")
  case False
  then show ?thesis by simp
next
  case True
  assume le: "z \<le> z'"
  define m where "m = round_to_even z'"
  have "z' \<le> of_int m + 1 / 2" by (rule rte_le_half) (simp add: m_def)
  moreover from True have "m + 1 \<le> round_to_even z" by (simp add: m_def)
  then have "\<not> round_to_even z \<le> m" by simp
  then have "\<not> z < of_int m + 1 / 2" using rte_half_le by blast
  ultimately have eq: "z = of_int m + 1 / 2" "z' = of_int m + 1 / 2" using le by linarith+
  then have "z = z'" by simp
  with True show ?thesis by simp
qed

lemma rte_shift: "even m \<Longrightarrow> round_to_even (z + of_int m) = round_to_even z + m"
  by (simp add: round_to_even_def Let_def)

lemma grid_le: "0 < u \<Longrightarrow> x \<le> u * of_int m \<Longrightarrow> u * of_int (round_to_even (x / u)) \<le> u * of_int m"
proof -
  assume u: "0 < u" and "x \<le> u * of_int m"
  then have "x / u \<le> of_int m" by (simp add: pos_divide_le_eq mult.commute)
  then have "round_to_even (x / u) \<le> m" by (rule rte_le)
  then have "(of_int (round_to_even (x / u)) :: real) \<le> of_int m" by simp
  with u show ?thesis by (simp only: mult_le_cancel_left_pos)
qed

lemma grid_ge: "0 < u \<Longrightarrow> u * of_int m \<le> x \<Longrightarrow> u * of_int m \<le> u * of_int (round_to_even (x / u))"
proof -
  assume u: "0 < u" and "u * of_int m \<le> x"
  then have "of_int m \<le> x / u" by (simp add: pos_le_divide_eq mult.commute)
  then have "m \<le> round_to_even (x / u)" by (rule rte_ge)
  then have "(of_int m :: real) \<le> of_int (round_to_even (x / u))" by simp
  with u show ?thesis by (simp only: mult_le_cancel_left_pos)
qed

lemma grid_mono:
  "0 < u \<Longrightarrow> x \<le> y \<Longrightarrow> u * of_int (round_to_even (x / u)) \<le> u * of_int (round_to_even (y / u))"
proof -
  assume u: "0 < u" and "x \<le> y"
  then have "x / u \<le> y / u" by (simp add: divide_right_mono)
  then have "round_to_even (x / u) \<le> round_to_even (y / u)" by (rule rte_mono)
  then have "(of_int (round_to_even (x / u)) :: real) \<le> of_int (round_to_even (y / u))" by simp
  with u show ?thesis by (simp only: mult_le_cancel_left_pos)
qed

lemma grid_err: "0 < u \<Longrightarrow> \<bar>u * of_int (round_to_even (x / u)) - x\<bar> \<le> u / 2"
proof -
  assume u: "0 < u"
  have "u * of_int (round_to_even (x / u)) - x = u * (of_int (round_to_even (x / u)) - x / u)"
    using u by (simp add: right_diff_distrib)
  then have "\<bar>u * of_int (round_to_even (x / u)) - x\<bar> = u * \<bar>of_int (round_to_even (x / u)) - x / u\<bar>"
    using u by (simp add: abs_mult)
  also have "\<dots> \<le> u * (1 / 2)"
    using u rte_err[of "x / u"] by (intro mult_left_mono) simp_all
  finally show ?thesis by simp
qed

lemma ex2_bounds:
  assumes "0 < x"
  shows "2 powr of_int (ex2 x) \<le> x" "x < 2 powr of_int (ex2 x + 1)"
  using floor_log_eq_powr_iff[of x 2 "ex2 x"] assms by (simp_all add: ex2_def)

lemma ex2_eqI: "0 < x \<Longrightarrow> 2 powr of_int k \<le> x \<Longrightarrow> x < 2 powr of_int (k + 1) \<Longrightarrow> ex2 x = k"
  using floor_log_eq_powr_iff[of x 2 k] by (simp add: ex2_def)

lemma ex2_mono: "0 < x \<Longrightarrow> x \<le> y \<Longrightarrow> ex2 x \<le> ex2 y"
  by (simp add: ex2_def floor_mono)

lemma binary64_pos:
  "0 < x \<Longrightarrow> binary64 x =
     2 powr (of_int (ex2 x) - 52) * of_int (round_to_even (x / 2 powr (of_int (ex2 x) - 52)))"
  by (simp add: binary64_def Let_def)

lemma ulp_times: "(2::real) powr (of_int e - 52) * of_int (2 ^ 52) = 2 powr of_int e"
proof -
  have p: "(of_int (2 ^ 52) :: real) = 2 powr 52" by simp
  show ?thesis unfolding p powr_add[symmetric] by simp
qed

lemma ulp_times': "(2::real) powr (of_int e - 52) * of_int (2 ^ 53) = 2 powr of_int (e + 1)"
proof -
  have p: "(of_int (2 ^ 53) :: real) = 2 powr 53" by simp
  show ?thesis unfolding p powr_add[symmetric] by (simp add: add.commute)
qed

lemma binary64_lower: "0 < x \<Longrightarrow> 2 powr of_int (ex2 x) \<le> binary64 x"
proof -
  assume x: "0 < x"
  let ?u = "2 powr (of_int (ex2 x) - 52) :: real"
  have u: "0 < ?u" by simp
  have "?u * of_int (2 ^ 52) \<le> x" using ex2_bounds(1)[OF x] by (simp only: ulp_times)
  from grid_ge[OF u this] show ?thesis
    by (simp only: ulp_times binary64_pos[OF x])
qed

lemma binary64_upper: "0 < x \<Longrightarrow> binary64 x \<le> 2 powr of_int (ex2 x + 1)"
proof -
  assume x: "0 < x"
  let ?u = "2 powr (of_int (ex2 x) - 52) :: real"
  have u: "0 < ?u" by simp
  have "x \<le> ?u * of_int (2 ^ 53)" using ex2_bounds(2)[OF x] by (simp only: ulp_times')
  from grid_le[OF u this] show ?thesis
    by (simp only: ulp_times' binary64_pos[OF x])
qed

lemma binary64_nonneg: "0 \<le> x \<Longrightarrow> 0 \<le> binary64 x"
proof (cases "x = 0")
  case True
  then show ?thesis by (simp add: binary64_def)
next
  case False
  assume "0 \<le> x"
  with False have "0 < x" by simp
  from binary64_lower[OF this] show ?thesis
    by (meson powr_ge_zero order_trans)
qed

lemma binary64_mono: "0 \<le> x \<Longrightarrow> x \<le> y \<Longrightarrow> binary64 x \<le> binary64 y"
proof (cases "x = 0")
  case True
  assume "0 \<le> x" "x \<le> y"
  then show ?thesis using True binary64_nonneg[of y] by (simp add: binary64_def)
next
  case False
  assume "0 \<le> x" and le: "x \<le> y"
  with False have x: "0 < x" and y: "0 < y" by simp_all
  have e: "ex2 x \<le> ex2 y" using x le by (rule ex2_mono)
  show ?thesis
  proof (cases "ex2 x = ex2 y")
    case True
    show ?thesis
      using grid_mono[of "2 powr (of_int (ex2 y) - 52)" x y] le
      by (simp add: binary64_pos[OF x] binary64_pos[OF y] True)
  next
    case False
    with e have "ex2 x + 1 \<le> ex2 y" by simp
    then have "(2::real) powr of_int (ex2 x + 1) \<le> 2 powr of_int (ex2 y)"
      by simp
    with binary64_upper[OF x] binary64_lower[OF y] show ?thesis by linarith
  qed
qed

lemma ex2_less: "0 < x \<Longrightarrow> x < 2 powr of_int k \<Longrightarrow> ex2 x < k"
proof -
  assume x: "0 < x" and "x < 2 powr of_int k"
  with ex2_bounds(1)[OF x] have "(2::real) powr of_int (ex2 x) < 2 powr of_int k" by linarith
  then show ?thesis by simp
qed

lemma binary64_on_grid:
  assumes x: "0 < x" and g: "x = 2 powr (of_int (ex2 x) - 52) * of_int m"
  shows "binary64 x = x"
proof -
  let ?u = "2 powr (of_int (ex2 x) - 52) :: real"
  have u: "0 < ?u" by simp
  have "x / ?u = of_int m" using g u by (metis nonzero_mult_div_cancel_left less_numeral_extra(3))
  then have "round_to_even (x / ?u) = m" by (simp only: rte_int)
  then show ?thesis using g by (simp only: binary64_pos[OF x])
qed

lemma pow2_nat: "0 \<le> k \<Longrightarrow> (2::real) powr of_int k = of_int (2 ^ nat k)"
  by (simp add: powr_real_of_int)

lemma binary64_nat:
  assumes "k < 2 ^ 53"
  shows "binary64 (real k) = real k"
proof (cases "k = 0")
  case True
  then show ?thesis by (simp add: binary64_def)
next
  case False
  then have x: "0 < real k" by simp
  have "real k < 2 powr of_int 53" using assms
    by (metis of_nat_less_iff of_nat_numeral of_nat_power powr_numeral of_int_numeral zero_le_numeral)
  from ex2_less[OF x this] have e: "0 \<le> 52 - ex2 (real k)" by simp
  let ?e = "ex2 (real k)"
  have "(2::real) powr (of_int ?e - 52) * 2 powr of_int (52 - ?e) = 1"
    unfolding powr_add[symmetric] by simp
  then have "real k = 2 powr (of_int ?e - 52) * (2 powr of_int (52 - ?e) * real k)"
    by (simp add: mult.assoc[symmetric])
  also have "2 powr of_int (52 - ?e) * real k = of_int (2 ^ nat (52 - ?e) * int k)"
    unfolding pow2_nat[OF e] by simp
  finally have "real k = 2 powr (of_int ?e - 52) * of_int (2 ^ nat (52 - ?e) * int k)" .
  from binary64_on_grid[OF x this] show ?thesis .
qed

lemma binary64_err_lower:
  assumes x: "0 < x"
  shows "x - x / 2 ^ 53 \<le> binary64 x"
proof -
  let ?u = "2 powr (of_int (ex2 x) - 52) :: real"
  have u: "0 < ?u" by simp
  have "?u * 2 ^ 52 = 2 powr of_int (ex2 x)" using ulp_times[of "ex2 x"] by simp
  with ex2_bounds(1)[OF x] have "?u * 2 ^ 52 \<le> x" by simp
  then have "?u \<le> x / 2 ^ 52" by (simp add: pos_le_divide_eq)
  then have "?u / 2 \<le> x / 2 ^ 53" by simp
  moreover have "\<bar>binary64 x - x\<bar> \<le> ?u / 2"
    using grid_err[OF u, of x] by (simp only: binary64_pos[OF x])
  ultimately show ?thesis by linarith
qed

lemma binary64_succ:
  assumes y0: "0 \<le> y" and hi: "y + 1 < 2 ^ 52"
  shows "\<lceil>binary64 (y + 1)\<rceil> \<le> \<lceil>binary64 y\<rceil> + 1"
proof (cases "y = 0")
  case True
  have "binary64 (real 1) = real 1" by (rule binary64_nat) simp
  then show ?thesis using True by (simp add: binary64_def)
next
  case False
  with y0 have y: "0 < y" and y1: "0 < y + 1" by simp_all
  define e where "e = ex2 y"
  define e' where "e' = ex2 (y + 1)"
  define u :: real where "u = 2 powr (of_int e - 52)"
  define u' :: real where "u' = 2 powr (of_int e' - 52)"
  define M where "M = \<lceil>binary64 y\<rceil>"
  define N where "N = (2::int) ^ nat (52 - e')"
  have u: "0 < u" and u': "0 < u'" by (simp_all add: u_def u'_def)
  have ee': "e \<le> e'" unfolding e_def e'_def using y by (intro ex2_mono) simp_all
  have "y + 1 < 2 powr of_int 52" using hi by simp
  from ex2_less[OF y1 this] have e52: "1 \<le> 52 - e'" by (simp add: e'_def)
  then have "0 < nat (52 - e')" by simp
  then have evenN: "even N" by (simp add: N_def)
  have "(2::real) powr (of_int e' - 52) * 2 powr of_int (52 - e') = 1"
    unfolding powr_add[symmetric] by simp
  moreover have "(2::real) powr of_int (52 - e') = of_int N"
    unfolding N_def by (rule pow2_nat) (use e52 in simp)
  ultimately have uN: "u' * of_int N = 1" by (simp add: u'_def)
  then have inv: "1 / u' = of_int N" using u' by (simp add: field_simps)
  have b0: "binary64 y = u * of_int (round_to_even (y / u))"
    unfolding u_def e_def by (rule binary64_pos[OF y])
  have by1: "binary64 (y + 1) = u' * of_int (round_to_even ((y + 1) / u'))"
    unfolding u'_def e'_def by (rule binary64_pos[OF y1])
  have "(y + 1) / u' = y / u' + of_int N" using inv by (simp add: add_divide_distrib)
  then have "round_to_even ((y + 1) / u') = round_to_even (y / u') + N"
    using rte_shift[OF evenN] by simp
  then have "binary64 (y + 1) = u' * of_int (round_to_even (y / u')) + u' * of_int N"
    unfolding by1 by (simp add: distrib_left)
  with uN have b1: "binary64 (y + 1) = u' * of_int (round_to_even (y / u')) + 1" by simp
  have bM: "binary64 y \<le> of_int M" unfolding M_def by (rule le_of_int_ceiling)
  have "u' * of_int (M * N) = of_int M * (u' * of_int N)" by simp
  then have MN: "of_int M = u' * of_int (M * N)" by (simp only: uN mult_1_right)
  have key: "u' * of_int (round_to_even (y / u')) \<le> of_int M"
  proof (cases "e' = e")
    case True
    then have "u' = u" by (simp add: u_def u'_def)
    then show ?thesis using bM b0 by simp
  next
    case False
    with ee' have "e + 1 \<le> e'" by simp
    then have "(2::real) powr (of_int e - 52) \<le> 2 powr (of_int e' - 53)" by simp
    also have "\<dots> = u' / 2"
    proof -
      have "(2::real) powr (of_int e' - 53) * 2 powr 1 = 2 powr (of_int e' - 52)"
        unfolding powr_add[symmetric] by simp
      then show ?thesis by (simp add: u'_def)
    qed
    finally have uu: "u \<le> u' / 2" by (simp add: u_def)
    have "\<bar>binary64 y - y\<bar> \<le> u / 2"
      using grid_err[OF u, of y] by (simp only: b0)
    with bM uu have "y \<le> of_int M + u' / 4" by linarith
    with u' have "y < of_int M + u' / 2" by linarith
    moreover have "of_int M + u' / 2 = u' * (of_int (M * N) + 1 / 2)"
      unfolding distrib_left MN[symmetric] by simp
    ultimately have "y < u' * (of_int (M * N) + 1 / 2)" by (simp only:)
    then have "y / u' < of_int (M * N) + 1 / 2"
      using u' by (simp add: pos_divide_less_eq mult.commute)
    then have "round_to_even (y / u') \<le> M * N" by (rule rte_half_le)
    then have "(of_int (round_to_even (y / u')) :: real) \<le> of_int (M * N)" by (simp only: of_int_le_iff)
    then have "u' * of_int (round_to_even (y / u')) \<le> u' * of_int (M * N)"
      using u' by (simp only: mult_le_cancel_left_pos)
    then show ?thesis by (simp only: MN[symmetric])
  qed
  then have "binary64 (y + 1) \<le> of_int (M + 1)" unfolding b1 by simp
  then have "\<lceil>binary64 (y + 1)\<rceil> \<le> M + 1" by (rule ceiling_le)
  then show ?thesis by (simp add: M_def)
qed

lemma binary64_add_nat:
  "0 \<le> y \<Longrightarrow> y + real c < 2 ^ 52 \<Longrightarrow> \<lceil>binary64 (y + real c)\<rceil> \<le> \<lceil>binary64 y\<rceil> + int c"
proof (induction c)
  case 0
  then show ?case by simp
next
  case (Suc c)
  have a: "0 \<le> y + real c" using Suc.prems(1) by simp
  have b: "(y + real c) + 1 < 2 ^ 52" using Suc.prems(2) by (simp add: add.assoc)
  have s1: "\<lceil>binary64 ((y + real c) + 1)\<rceil> \<le> \<lceil>binary64 (y + real c)\<rceil> + 1"
    using a b by (rule binary64_succ)
  have s2: "\<lceil>binary64 (y + real c)\<rceil> \<le> \<lceil>binary64 y\<rceil> + int c"
    using Suc.IH Suc.prems by simp
  have eq: "y + real (Suc c) = (y + real c) + 1" by simp
  have "\<lceil>binary64 (y + real (Suc c))\<rceil> \<le> \<lceil>binary64 y\<rceil> + int c + 1"
    unfolding eq using s1 s2 by linarith
  then show ?case by simp
qed

section \<open>Stage A: the partition of the candidates\<close>

declare create_threads.simps [simp del]

lemma range_end_0: "range_end n t 0 = 0"
  by (simp add: range_end_def binary64_def)

lemma create_threads_map:
  "create_threads tc solvers n t i (range_end n t i) =
     map (\<lambda>j. tc\<lparr>grasps_id_start_' := range_end n t j, grasps_id_end_' := range_end n t (Suc j),
                kin_solver_' := solvers ! j, thread_id_' := j\<rparr>) [i..<t]"
proof (induction "t - i" arbitrary: i)
  case 0
  then show ?case by (subst create_threads.simps) simp
next
  case (Suc k)
  then have lt: "i < t" and k: "k = t - Suc i" by simp_all
  have "create_threads tc solvers n t i (range_end n t i) =
        tc\<lparr>grasps_id_start_' := range_end n t i, grasps_id_end_' := range_end n t (Suc i),
                kin_solver_' := solvers ! i, thread_id_' := i\<rparr>
        # create_threads tc solvers n t (Suc i) (range_end n t (Suc i))"
    using lt by (subst create_threads.simps) (simp add: Let_def range_end_def)
  also have "\<dots> = map (\<lambda>j. tc\<lparr>grasps_id_start_' := range_end n t j, grasps_id_end_' := range_end n t (Suc j),
                kin_solver_' := solvers ! j, thread_id_' := j\<rparr>) [i..<t]"
    using Suc.hyps(1)[OF k] lt by (simp add: upt_conv_Cons)
  finally show ?case .
qed

lemma range_end_unfold:
  "range_end n t j =
     (if n \<le> nat \<lceil>binary64 (binary64 (real n / real t) * real j)\<rceil> then n
      else nat \<lceil>binary64 (binary64 (real n / real t) * real j)\<rceil>)"
  by (simp only: range_end_def Let_def)

lemma share_nonneg: "0 \<le> binary64 (real n / real t)"
  by (rule binary64_nonneg) simp

lemma range_end_mono: "i \<le> j \<Longrightarrow> range_end n t i \<le> range_end n t j"
proof -
  assume ij: "i \<le> j"
  define q where "q = binary64 (real n / real t)"
  define a where "a = nat \<lceil>binary64 (q * real i)\<rceil>"
  define b where "b = nat \<lceil>binary64 (q * real j)\<rceil>"
  have q: "0 \<le> q" unfolding q_def by (rule share_nonneg)
  have "q * real i \<le> q * real j"
    using ij q by (intro mult_left_mono) simp_all
  moreover have "0 \<le> q * real i" using q by simp
  ultimately have "binary64 (q * real i) \<le> binary64 (q * real j)"
    by (intro binary64_mono)
  then have "\<lceil>binary64 (q * real i)\<rceil> \<le> \<lceil>binary64 (q * real j)\<rceil>"
    by (rule ceiling_mono)
  then have "a \<le> b"
    unfolding a_def b_def by (rule nat_mono)
  then have "(if n \<le> a then n else a) \<le> (if n \<le> b then n else b)" by simp
  then show ?thesis
    unfolding range_end_unfold a_def b_def q_def .
qed

lemma range_end_last:
  assumes t: "0 < t" and n: "n < 2 ^ 52"
  shows "range_end n t t = n"
proof (cases "n = 0")
  case True
  then show ?thesis by (simp add: range_end_def Let_def)
next
  case False
  define q where "q = binary64 (real n / real t)"
  define a where "a = nat \<lceil>binary64 (q * real t)\<rceil>"
  let ?d = "1 - 1 / (2 ^ 53 :: real)"
  have d: "0 < ?d" by simp
  have x: "0 < real n / real t" using False t by simp
  have "real n / real t * ?d \<le> q"
    using binary64_err_lower[OF x] unfolding q_def by (simp add: right_diff_distrib)
  then have "real n / real t * ?d * real t \<le> q * real t"
    by (intro mult_right_mono) simp_all
  moreover have "real n / real t * ?d * real t = real n * ?d" using t by simp
  ultimately have qt: "real n * ?d \<le> q * real t" by simp
  have "0 < real n * ?d" using False by simp
  with qt have y: "0 < q * real t" by linarith
  have "q * real t * ?d \<le> binary64 (q * real t)"
    using binary64_err_lower[OF y] by (simp add: right_diff_distrib)
  moreover have "real n * ?d * ?d \<le> q * real t * ?d"
    using qt by (intro mult_right_mono) simp_all
  ultimately have low: "real n * ?d * ?d \<le> binary64 (q * real t)" by linarith
  have "real n < 2 ^ 52" using n by (metis of_nat_less_iff of_nat_numeral of_nat_power)
  then have "real n * (2 / 2 ^ 53) < 1" by simp
  moreover have "real n * ?d * ?d = real n - real n * (2 / 2 ^ 53) + real n * (1 / 2 ^ 53 * (1 / 2 ^ 53))"
    by (simp add: algebra_simps)
  moreover have "0 \<le> real n * (1 / 2 ^ 53 * (1 / 2 ^ 53))" by simp
  ultimately have "real n - 1 < real n * ?d * ?d" by linarith
  with low have "of_int (int n - 1) < binary64 (q * real t)" by simp
  then have "int n - 1 < \<lceil>binary64 (q * real t)\<rceil>" by (simp only: less_ceiling_iff)
  then have "n \<le> a" unfolding a_def by linarith
  then have "(if n \<le> a then n else a) = n" by simp
  then show ?thesis unfolding range_end_unfold a_def q_def .
qed

lemma range_end_share:
  assumes t: "0 < t" and j: "j < t" and tn: "t \<le> n" and n: "n < 2 ^ 50"
  shows "range_end n t (Suc j) - range_end n t j \<le> nat \<lceil>real n / real t\<rceil>"
proof -
  define q where "q = binary64 (real n / real t)"
  define c where "c = nat \<lceil>real n / real t\<rceil>"
  define a where "a = nat \<lceil>binary64 (q * real j)\<rceil>"
  define b where "b = nat \<lceil>binary64 (q * real (Suc j))\<rceil>"
  have q0: "0 \<le> q" unfolding q_def by (rule share_nonneg)
  have c0: "0 \<le> \<lceil>real n / real t\<rceil>" by (metis ceiling_mono ceiling_zero divide_nonneg_nonneg of_nat_0_le_iff)
  have rc: "real c = of_int \<lceil>real n / real t\<rceil>" unfolding c_def using c0 by simp
  have share_le: "real n / real t \<le> real c" unfolding rc by (rule le_of_int_ceiling)
  have "real c < real n / real t + 1" unfolding rc by linarith
  then have "real c * real t < (real n / real t + 1) * real t"
    using t by (intro mult_strict_right_mono) simp_all
  also have "\<dots> = real n + real t" using t by (simp add: distrib_right)
  finally have ct: "real c * real t < real n + real t" .
  have "real n \<le> real c * real t"
    using share_le t by (simp add: pos_divide_le_eq)
  have c_small: "c < 2 ^ 53"
  proof -
    have "1 \<le> real t" using t by simp
    then have "real n / real t \<le> real n / 1" by (intro divide_left_mono) simp_all
    then have "real n / real t \<le> real n" by simp
    then have "real n / real t \<le> of_int (int n)" by simp
    then have "\<lceil>real n / real t\<rceil> \<le> int n" by (rule ceiling_le)
    then have "c \<le> n" unfolding c_def by linarith
    moreover have "(2::nat) ^ 50 < 2 ^ 53" by simp
    ultimately show ?thesis using n by linarith
  qed
  have qc: "q \<le> real c"
  proof -
    have "binary64 (real n / real t) \<le> binary64 (real c)"
      using share_le by (intro binary64_mono) simp_all
    then show ?thesis unfolding q_def by (simp only: binary64_nat[OF c_small])
  qed
  have y0: "0 \<le> q * real j" using q0 by simp
  have "q * real j \<le> real c * real j" using qc by (intro mult_right_mono) simp_all
  then have "q * real j + real c \<le> real c * (real j + 1)" by (simp add: distrib_left)
  also have "\<dots> \<le> real c * real t"
    using j by (intro mult_left_mono) simp_all
  also have "\<dots> < real n + real t" by (rule ct)
  also have "\<dots> \<le> 2 * real n" using tn by simp
  also have "\<dots> < 2 ^ 52"
  proof -
    have "real n < 2 ^ 50" using n by (metis of_nat_less_iff of_nat_numeral of_nat_power)
    then show ?thesis by simp
  qed
  finally have small: "q * real j + real c < 2 ^ 52" .
  have "q * real (Suc j) = q * real j + q" by (simp add: distrib_left)
  then have "q * real (Suc j) \<le> q * real j + real c" using qc by simp
  moreover have "0 \<le> q * real (Suc j)" using q0 by simp
  ultimately have "binary64 (q * real (Suc j)) \<le> binary64 (q * real j + real c)"
    by (intro binary64_mono)
  then have "\<lceil>binary64 (q * real (Suc j))\<rceil> \<le> \<lceil>binary64 (q * real j + real c)\<rceil>"
    by (rule ceiling_mono)
  also have "\<dots> \<le> \<lceil>binary64 (q * real j)\<rceil> + int c"
    using y0 small by (rule binary64_add_nat)
  finally have up: "\<lceil>binary64 (q * real (Suc j))\<rceil> \<le> \<lceil>binary64 (q * real j)\<rceil> + int c" .
  have "0 \<le> binary64 (q * real j)" using y0 by (rule binary64_nonneg)
  then have "0 \<le> \<lceil>binary64 (q * real j)\<rceil>" by (metis ceiling_mono ceiling_zero)
  with up have "b \<le> a + c" unfolding a_def b_def by linarith
  then have "(if n \<le> b then n else b) - (if n \<le> a then n else a) \<le> c" by auto
  then show ?thesis
    unfolding range_end_unfold a_def b_def c_def q_def .
qed

lemma concat_ranges:
  "(\<And>a b. a \<le> b \<Longrightarrow> f a \<le> f b) \<Longrightarrow> i \<le> t \<Longrightarrow>
   concat (map (\<lambda>j. [f j..<f (Suc j)]) [i..<t]) = [f i..<f (t::nat)]"
proof (induction t)
  case 0
  then show ?case by simp
next
  case (Suc t)
  show ?case
  proof (cases "i = Suc t")
    case True
    then show ?thesis by simp
  next
    case False
    with Suc.prems have it: "i \<le> t" by simp
    have "f i \<le> f t" "f t \<le> f (Suc t)" using Suc.prems(1) it by simp_all
    then have "[f i..<f (Suc t)] = [f i..<f t] @ [f t..<f (Suc t)]"
      by (metis le_Suc_ex upt_add_eq_append)
    then show ?thesis using Suc.IH[OF Suc.prems(1) it] it by simp
  qed
qed

lemma count_list_concat: "count_list (concat xss) x = sum_list (map (\<lambda>xs. count_list xs x) xss)"
  by (induction xss) simp_all

lemma count_list_upt: "count_list [a..<b] i = (if a \<le> i \<and> i < b then 1 else 0)"
  by (induction b) auto

lemma sum_list_indicator: "sum_list (map (\<lambda>x. if P x then 1 else 0) xs) = length (filter P xs)"
  by (induction xs) simp_all

lemma create_threads_ranges:
  "create_threads tc solvers n t 0 0 =
     map (\<lambda>j. tc\<lparr>grasps_id_start_' := range_end n t j, grasps_id_end_' := range_end n t (Suc j),
                kin_solver_' := solvers ! j, thread_id_' := j\<rparr>) [0..<t]"
  using create_threads_map[of tc solvers n t 0] by (simp add: range_end_0)

lemma binary64_eval:
  assumes "2 ^ k \<le> x" "x < 2 ^ Suc k" "k \<le> 52"
  shows "binary64 x = of_int (round_to_even (x * 2 ^ (52 - k))) / 2 ^ (52 - k)"
proof -
  have x: "0 < x" using assms(1) by (meson zero_less_numeral zero_less_power less_le_trans)
  have "(2::real) powr real k = 2 ^ k" by (rule powr_realpow) simp
  then have p1: "(2::real) powr of_int (int k) = 2 ^ k" by simp
  have "(2::real) powr real (Suc k) = 2 ^ Suc k" by (rule powr_realpow) simp
  moreover have "(of_int (int k + 1) :: real) = real (Suc k)" by simp
  ultimately have p2: "(2::real) powr of_int (int k + 1) = 2 ^ Suc k" by (simp only:)
  have "(2::real) powr of_int (int k) \<le> x" "x < 2 powr of_int (int k + 1)"
    unfolding p1 p2 using assms(1,2) by simp_all
  from ex2_eqI[OF x this] have e: "ex2 x = int k" .
  have "(2::real) powr (of_int (int k) - 52) * 2 powr real (52 - k) = 1"
    unfolding powr_add[symmetric] using assms(3) by (simp add: of_nat_diff)
  then have u: "(2::real) powr (of_int (int k) - 52) = 1 / 2 ^ (52 - k)"
    by (simp add: powr_realpow field_simps)
  show ?thesis
    unfolding binary64_pos[OF x] e u by simp
qed

lemma binary64_values:
  "binary64 1 = 1" "binary64 3 = 3" "binary64 5 = 5" "binary64 10 = 10"
  "binary64 (3 / 2) = 3 / 2" "binary64 (5 / 2) = 5 / 2" "binary64 (15 / 2) = 15 / 2"
proof -
  show "binary64 1 = 1" using binary64_nat[of 1] by simp
  show "binary64 3 = 3" using binary64_nat[of 3] by simp
  show "binary64 5 = 5" using binary64_nat[of 5] by simp
  show "binary64 10 = 10" using binary64_nat[of 10] by simp
  show "binary64 (3 / 2) = 3 / 2"
    by (subst binary64_eval[where k = 0]) (simp_all add: round_to_even_def)
  show "binary64 (5 / 2) = 5 / 2"
    by (subst binary64_eval[where k = 1]) (simp_all add: round_to_even_def)
  show "binary64 (15 / 2) = 15 / 2"
    by (subst binary64_eval[where k = 2]) (simp_all add: round_to_even_def)
qed

text \<open>
  The bound of a range is not always the exact ceiling. With \<open>58\<close> candidates and \<open>14\<close>
  workers the rounded share is a little above \<open>29/7\<close> and its product with \<open>7\<close> rounds
  to \<open>29 + 2^(-48)\<close>: the seventh boundary is \<open>30\<close>, where the ceiling of \<open>58 * 7 / 14\<close>
  is \<open>29\<close>.
\<close>

lemma range_end_58_14:
  "binary64 (real 58 / real 14) = 4664442471205157 / 2 ^ 50"
  "binary64 (binary64 (real 58 / real 14) * real 7) = 8162774324609025 / 2 ^ 48"
  "range_end 58 14 7 = 30"
  "nat \<lceil>real (58 * 7) / real 14\<rceil> = 29"
proof -
  show a: "binary64 (real 58 / real 14) = 4664442471205157 / 2 ^ 50"
    by (subst binary64_eval[where k = 2]) (simp_all add: round_to_even_def)
  show b: "binary64 (binary64 (real 58 / real 14) * real 7) = 8162774324609025 / 2 ^ 48"
    unfolding a by (subst binary64_eval[where k = 4]) (simp_all add: round_to_even_def)
  show "range_end 58 14 7 = 30"
    unfolding range_end_def b by simp
  show "nat \<lceil>real (58 * 7) / real 14\<rceil> = 29" by simp
qed

text \<open>
  C4. For a worker count from \<open>1\<close> to the candidate count \<open>n\<close>, with \<open>n\<close> in the range of
  the \<^verbatim>\<open>int\<close> indices, the loop makes that many workers; worker \<open>j\<close> gets the indices
  from the \<open>j\<close>-th boundary up to, not including, the next one, each boundary the
  ceiling of the share times the index as the doubles give it; the ranges, one after the
  other, are the indices \<open>0, \<dots>, n - 1\<close> in order, so that every index is in the range of
  exactly one worker; and no range has more indices than the ceiling of
  \<open>n / num_threads\<close>.
\<close>

theorem create_threads_partition:
  assumes "1 \<le> num_threads" "num_threads \<le> n" "n < 2 ^ 31"
  shows "let ths = create_threads tc solvers n num_threads 0 0 in
           length ths = num_threads
         \<and> (\<forall>j<num_threads.
               grasps_id_start_' (ths ! j) = range_end n num_threads j \<and>
               grasps_id_end_' (ths ! j) = range_end n num_threads (Suc j))
         \<and> concat (map (\<lambda>ts. [grasps_id_start_' ts..<grasps_id_end_' ts]) ths) = [0..<n]
         \<and> (\<forall>i<n. length (filter (\<lambda>ts. grasps_id_start_' ts \<le> i \<and> i < grasps_id_end_' ts) ths) = 1)
         \<and> (\<forall>ts\<in>set ths. grasps_id_end_' ts - grasps_id_start_' ts
                            \<le> nat \<lceil>real n / real num_threads\<rceil>)"
proof -
  define ths where "ths = create_threads tc solvers n num_threads 0 0"
  have pos: "0 < num_threads" using assms(1) by simp
  have "(2::nat) ^ 31 < 2 ^ 50" "(2::nat) ^ 31 < 2 ^ 52" by simp_all
  with assms(3) have n50: "n < 2 ^ 50" and n52: "n < 2 ^ 52" by linarith+
  have ths: "ths = map (\<lambda>j. tc\<lparr>grasps_id_start_' := range_end n num_threads j,
                                 grasps_id_end_' := range_end n num_threads (Suc j),
                                 kin_solver_' := solvers ! j, thread_id_' := j\<rparr>) [0..<num_threads]"
    unfolding ths_def by (rule create_threads_ranges)
  have len: "length ths = num_threads" by (simp add: ths)
  have bounds: "\<forall>j<num_threads.
               grasps_id_start_' (ths ! j) = range_end n num_threads j \<and>
               grasps_id_end_' (ths ! j) = range_end n num_threads (Suc j)"
    by (simp add: ths)
  have "map (\<lambda>ts. [grasps_id_start_' ts..<grasps_id_end_' ts]) ths =
        map (\<lambda>j. [range_end n num_threads j..<range_end n num_threads (Suc j)]) [0..<num_threads]"
    by (simp add: ths)
  then have cover: "concat (map (\<lambda>ts. [grasps_id_start_' ts..<grasps_id_end_' ts]) ths) = [0..<n]"
    using concat_ranges[of "range_end n num_threads" 0 num_threads] pos
    by (simp add: range_end_mono range_end_0 range_end_last[OF pos n52])
  have once: "\<forall>i<n. length (filter (\<lambda>ts. grasps_id_start_' ts \<le> i \<and> i < grasps_id_end_' ts) ths) = 1"
  proof (intro allI impI)
    fix i assume "i < n"
    then have "count_list (concat (map (\<lambda>ts. [grasps_id_start_' ts..<grasps_id_end_' ts]) ths)) i = 1"
      by (simp add: cover count_list_upt)
    then have "sum_list (map (\<lambda>ts. if grasps_id_start_' ts \<le> i \<and> i < grasps_id_end_' ts
                                    then 1 else 0) ths) = (1::nat)"
      by (simp add: count_list_concat count_list_upt comp_def)
    then show "length (filter (\<lambda>ts. grasps_id_start_' ts \<le> i \<and> i < grasps_id_end_' ts) ths) = 1"
      by (simp add: sum_list_indicator)
  qed
  have share: "\<forall>ts\<in>set ths. grasps_id_end_' ts - grasps_id_start_' ts
                            \<le> nat \<lceil>real n / real num_threads\<rceil>"
  proof
    fix ts assume "ts \<in> set ths"
    then obtain j where j: "j < num_threads"
      and ts: "ts = tc\<lparr>grasps_id_start_' := range_end n num_threads j,
                       grasps_id_end_' := range_end n num_threads (Suc j),
                       kin_solver_' := solvers ! j, thread_id_' := j\<rparr>"
      unfolding ths by auto
    show "grasps_id_end_' ts - grasps_id_start_' ts \<le> nat \<lceil>real n / real num_threads\<rceil>"
      using range_end_share[OF pos j assms(2) n50] by (simp add: ts)
  qed
  show ?thesis
    unfolding Let_def ths_def[symmetric] using len bounds cover once share by blast
qed

theorem create_threads_partition_witness:
  "(1::nat) \<le> 4 \<and> (4::nat) \<le> 10 \<and> (10::nat) < 2 ^ 31
   \<and> length (create_threads ex_thread [] 10 4 0 0) = 4
   \<and> concat (map (\<lambda>ts. [grasps_id_start_' ts..<grasps_id_end_' ts])
        (create_threads ex_thread [] 10 4 0 0)) = [0..<10]
   \<and> map (\<lambda>ts. (grasps_id_start_' ts, grasps_id_end_' ts)) (create_threads ex_thread [] 10 4 0 0)
       = [(0, 3), (3, 5), (5, 8), (8, 10)]"
proof -
  have a: "(1::nat) \<le> 4" and b: "(4::nat) \<le> 10" and c: "(10::nat) < 2 ^ 31" by simp_all
  have "map (\<lambda>ts. (grasps_id_start_' ts, grasps_id_end_' ts)) (create_threads ex_thread [] 10 4 0 0)
       = [(0, 3), (3, 5), (5, 8), (8, 10)]"
    by (simp add: create_threads.simps binary64_values)
  then show ?thesis
    using create_threads_partition[OF a b c, of ex_thread "[]"] by (simp add: Let_def)
qed

section \<open>Stage A: a worker\<close>

declare filterGraspThread_loop.simps [simp del]

lemma SUCCESS_neq [simp]: "SUCCESS \<noteq> NO_IK_SOLUTION" "SUCCESS \<noteq> TIMED_OUT"
  "NO_IK_SOLUTION \<noteq> SUCCESS" "TIMED_OUT \<noteq> SUCCESS"
  by (simp_all add: SUCCESS_def NO_IK_SOLUTION_def TIMED_OUT_def)

lemma body_steps:
  assumes solver: "kin_solver_' ts = Some solver"
    and ee: "filter_pregrasp_' ts \<longrightarrow> ee_jmg_' ts = Some ee"
    and lo: "grasps_id_start_' ts \<le> i"
    and hi: "i < length (possible_grasps_' ts)"
  shows "\<exists>out. filterGraspThread_body gpp ts i
            (seed_state_at solver nv ts (i - grasps_id_start_' ts)) =
          Inr (seed_state_at solver nv ts (Suc i - grasps_id_start_' ts),
               (if accepted gpp solver ee nv ts i then [solution_of gpp solver ee nv ts i] else []),
               out)"
proof -
  have k: "Suc i - grasps_id_start_' ts = Suc (i - grasps_id_start_' ts)"
    and idx: "grasps_id_start_' ts + (i - grasps_id_start_' ts) = i"
    using lo by simp_all
  obtain sol code where g: "grasp_ik solver nv ts i = (sol, code)"
    by (cases "grasp_ik solver nv ts i")
  then have g': "searchPositionIK solver (link_transform_' ts (pose (grasp_pose (possible_grasps_' ts ! i))))
       (seed_state_at solver nv ts (i - grasps_id_start_' ts)) (timeout_' ts) = (sol, code)"
    by (simp add: grasp_ik_def grasp_ik_pose_def)
  have seed: "seed_state_at solver nv ts (Suc i - grasps_id_start_' ts) =
     (if code = SUCCESS then sol else seed_state_at solver nv ts (i - grasps_id_start_' ts))"
    using g' by (simp add: k idx grasp_ik_pose_def)
  show ?thesis
  proof (cases "code = SUCCESS")
    case False
    then show ?thesis
      using solver hi g g' seed
      by (simp add: filterGraspThread_body_def Let_def accepted_def)
  next
    case True
    show ?thesis
    proof (cases "filter_pregrasp_' ts")
      case False
      then show ?thesis
        using solver hi g g' seed True
        by (simp add: filterGraspThread_body_def Let_def accepted_def solution_of_def)
    next
      case fp: True
      then have e: "ee_jmg_' ts = Some ee" using ee by simp
      obtain psol pcode where p: "pregrasp_ik gpp solver ee nv ts i = (psol, pcode)"
        by (cases "pregrasp_ik gpp solver ee nv ts i")
      then have p': "searchPositionIK solver
          (link_transform_' ts (pose (gpp (possible_grasps_' ts ! i) (snd (getEndEffectorParentGroup ee)))))
          sol (timeout_' ts) = (psol, pcode)"
        using g by (simp add: pregrasp_ik_def)
      show ?thesis
        using solver hi g g' seed True fp e p p'
        by (auto simp add: filterGraspThread_body_def Let_def accepted_def solution_of_def)
    qed
  qed
qed

lemma loop_accepts:
  assumes solver: "kin_solver_' ts = Some solver"
    and ee: "filter_pregrasp_' ts \<longrightarrow> ee_jmg_' ts = Some ee"
    and hi: "grasps_id_end_' ts \<le> length (possible_grasps_' ts)"
  shows "grasps_id_start_' ts \<le> i \<Longrightarrow>
     \<exists>out'. filterGraspThread_loop gpp ts i (seed_state_at solver nv ts (i - grasps_id_start_' ts))
            (pushed, out) =
       Inr (pushed @ map (solution_of gpp solver ee nv ts)
                      (filter (accepted gpp solver ee nv ts) [i..<grasps_id_end_' ts]), out')"
proof (induction "grasps_id_end_' ts - i" arbitrary: i pushed out)
  case 0
  then show ?case by (subst filterGraspThread_loop.simps) simp
next
  case (Suc k)
  then have lt: "i < grasps_id_end_' ts" and k: "k = grasps_id_end_' ts - Suc i" by simp_all
  from lt hi have inr: "i < length (possible_grasps_' ts)" by simp
  from body_steps[OF solver ee Suc.prems inr, of gpp nv] obtain out1 where
    b: "filterGraspThread_body gpp ts i (seed_state_at solver nv ts (i - grasps_id_start_' ts)) =
          Inr (seed_state_at solver nv ts (Suc i - grasps_id_start_' ts),
               (if accepted gpp solver ee nv ts i then [solution_of gpp solver ee nv ts i] else []),
               out1)" by blast
  have le: "grasps_id_start_' ts \<le> Suc i" using Suc.prems by simp
  from Suc.hyps(1)[OF k le] obtain out' where
    r: "filterGraspThread_loop gpp ts (Suc i) (seed_state_at solver nv ts (Suc i - grasps_id_start_' ts))
            (pushed @ (if accepted gpp solver ee nv ts i then [solution_of gpp solver ee nv ts i] else []),
             out @ out1) =
       Inr ((pushed @ (if accepted gpp solver ee nv ts i then [solution_of gpp solver ee nv ts i] else []))
            @ map (solution_of gpp solver ee nv ts)
                      (filter (accepted gpp solver ee nv ts) [Suc i..<grasps_id_end_' ts]), out')"
    by blast
  have "filterGraspThread_loop gpp ts i (seed_state_at solver nv ts (i - grasps_id_start_' ts))
            (pushed, out) =
       Inr (pushed @ map (solution_of gpp solver ee nv ts)
                      (filter (accepted gpp solver ee nv ts) [i..<grasps_id_end_' ts]), out')"
    using lt b r by (subst filterGraspThread_loop.simps) (simp add: upt_conv_Cons)
  then show ?case by blast
qed

text \<open>
  C1. A worker with a solver (and, when pre-grasps are filtered, with an end-effector
  group) whose range lies within the candidates runs to its end, and what it appends to
  the shared vector is, in the order of the indices, the solution of every candidate of
  its range that is \<open>accepted\<close>: the call of the solver for the grasp pose returns
  \<^verbatim>\<open>SUCCESS\<close> and, when pre-grasps are filtered, so does the call for the pre-grasp
  pose. Every other candidate is passed over and the worker goes on with the next.
\<close>

theorem filterGraspThread_accepts:
  assumes "kin_solver_' ts = Some solver"
    and "filter_pregrasp_' ts \<longrightarrow> ee_jmg_' ts = Some ee"
    and "grasps_id_end_' ts \<le> length (possible_grasps_' ts)"
  shows "\<exists>out. filterGraspThread gpp nv ts =
           Inr (map (solution_of gpp solver ee nv ts)
                  (filter (accepted gpp solver ee nv ts)
                     [grasps_id_start_' ts..<grasps_id_end_' ts]), out)"
  using loop_accepts[OF assms, of "grasps_id_start_' ts" gpp nv "[]" "[]"]
  by (simp add: filterGraspThread_def)

lemma ex_thread_fields:
  "kin_solver_' ex_thread = Some (ex_solver ''world'')"
  "filter_pregrasp_' ex_thread \<longrightarrow> ee_jmg_' ex_thread = Some ex_gripper"
  "grasps_id_end_' ex_thread \<le> length (possible_grasps_' ex_thread)"
  by (simp_all add: ex_thread_def)

theorem filterGraspThread_accepts_witness:
  "kin_solver_' ex_thread = Some (ex_solver ''world'')
   \<and> ee_jmg_' ex_thread = Some ex_gripper
   \<and> grasps_id_end_' ex_thread \<le> length (possible_grasps_' ex_thread)
   \<and> (\<exists>out. filterGraspThread (getPreGraspPose ex_ik_services) 1 ex_thread =
         Inr ([\<lparr>grasp_' = ex_grasp 1, grasp_ik_solution_' = [1], pregrasp_ik_solution_' = [1]\<rparr>,
               \<lparr>grasp_' = ex_grasp 2, grasp_ik_solution_' = [2], pregrasp_ik_solution_' = [2]\<rparr>],
              out))"
proof -
  have "map (solution_of (getPreGraspPose ex_ik_services) (ex_solver ''world'') ex_gripper 1 ex_thread)
          (filter (accepted (getPreGraspPose ex_ik_services) (ex_solver ''world'') ex_gripper 1 ex_thread)
             [grasps_id_start_' ex_thread..<grasps_id_end_' ex_thread])
        = [\<lparr>grasp_' = ex_grasp 1, grasp_ik_solution_' = [1], pregrasp_ik_solution_' = [1]\<rparr>,
           \<lparr>grasp_' = ex_grasp 2, grasp_ik_solution_' = [2], pregrasp_ik_solution_' = [2]\<rparr>]"
    by (simp add: ex_thread_def ex_ik_services_def ex_solver_def ex_grasp_def ex_gripper_def
          accepted_def solution_of_def grasp_ik_def pregrasp_ik_def grasp_ik_pose_def
          eval_nat_numeral)
  then show ?thesis
    using filterGraspThread_accepts[OF ex_thread_fields, of "getPreGraspPose ex_ik_services" 1]
    by (simp add: ex_thread_def)
qed

section \<open>Stage A: failures and the retry\<close>

declare load_solvers.simps [simp del]

lemma stage_runs_append: "stage_runs (a @ b) = stage_runs a @ stage_runs b"
  by (induction a rule: stage_runs.induct) simp_all

lemma load_solvers_False:
  "length solvers = i \<Longrightarrow> fst (load_solvers arm n i solvers) = False \<Longrightarrow> getSolverInstance arm = None"
proof (induction "n - i" arbitrary: i solvers)
  case 0
  then show ?case by (subst (asm) load_solvers.simps) simp
next
  case (Suc k)
  then have lt: "i < n" and k: "k = n - Suc i" by simp_all
  show ?case
  proof (cases "getSolverInstance arm")
    case None
    then show ?thesis .
  next
    case (Some s)
    have nth: "(solvers @ [getSolverInstance arm]) ! i = Some s"
      using Suc.prems(1)[symmetric] Some by simp
    have "fst (load_solvers arm n (Suc i) (solvers @ [getSolverInstance arm])) = False"
      using Suc.prems(2) lt nth by (subst (asm) load_solvers.simps) (simp add: Let_def)
    moreover have "length (solvers @ [getSolverInstance arm]) = Suc i"
      using Suc.prems(1) by simp
    ultimately show ?thesis using Suc.hyps(1)[OF k] by blast
  qed
qed

lemma body_no_stage_run:
  "filterGraspThread_body gpp ts i seed = Inr (seed', sols, out) \<Longrightarrow> stage_runs out = []"
  by (auto simp: filterGraspThread_body_def Let_def
           split: if_splits option.splits prod.splits)

lemma loop_no_stage_run:
  "filterGraspThread_loop gpp ts i seed (pushed, out) = Inr (pushed', out') \<Longrightarrow>
   stage_runs out' = stage_runs out"
proof (induction "grasps_id_end_' ts - i" arbitrary: i seed pushed out)
  case 0
  then show ?case by (subst (asm) filterGraspThread_loop.simps) simp
next
  case (Suc k)
  then have lt: "i < grasps_id_end_' ts" and k: "k = grasps_id_end_' ts - Suc i" by simp_all
  from Suc.prems lt obtain seed1 sols out1 where
    b: "filterGraspThread_body gpp ts i seed = Inr (seed1, sols, out1)" and
    r: "filterGraspThread_loop gpp ts (Suc i) seed1 (pushed @ sols, out @ out1) = Inr (pushed', out')"
    by (subst (asm) filterGraspThread_loop.simps) (auto split: sum.splits)
  from Suc.hyps(1)[OF k r] body_no_stage_run[OF b] show ?case
    by (simp add: stage_runs_append)
qed

lemma join_all_no_stage_run:
  "join_all gpp nv tcs = Inr (pushed, out) \<Longrightarrow> stage_runs out = []"
proof (induction tcs arbitrary: pushed out)
  case Nil
  then show ?case by simp
next
  case (Cons tc tcs)
  from Cons.prems obtain p1 o1 p2 o2 where
    t: "filterGraspThread gpp nv tc = Inr (p1, o1)" and
    j: "join_all gpp nv tcs = Inr (p2, o2)" and o: "out = o1 @ o2"
    by (auto split: sum.splits)
  from t have "stage_runs o1 = []"
    using loop_no_stage_run[of gpp tc _ _ "[]" "[]" p1 o1] by (simp add: filterGraspThread_def)
  with Cons.IH[OF j] o show ?case by (simp add: stage_runs_append)
qed

lemma helper_Inr_cases:
  assumes h: "filterGraspsHelper sv st gs fg fp ee arm v = Inr (r, st', fg', out)"
  obtains
    (no_solver)
      "\<not> fst (ensure_solvers (kin_solvers_' st (getName arm)) arm
                (num_threads_of (hardware_concurrency sv) (length gs) v))"
      "r = False" "fg' = fg"
      "st' = st\<lparr>kin_solvers_' := (kin_solvers_' st)(getName arm :=
                snd (ensure_solvers (kin_solvers_' st (getName arm)) arm
                       (num_threads_of (hardware_concurrency sv) (length gs) v)))\<rparr>"
      "out = (if v then [ROS_WARN (UsingOnlyThreads
                  (num_threads_of (hardware_concurrency sv) (length gs) v))] else [])
             @ [ROS_INFO (FilteringWithThreads
                  (num_threads_of (hardware_concurrency sv) (length gs) v)),
                ROS_ERROR NoKinematicSolverFound]"
  | (no_link) solver0 rest where
      "snd (ensure_solvers (kin_solvers_' st (getName arm)) arm
                (num_threads_of (hardware_concurrency sv) (length gs) v)) = Some solver0 # rest"
      "link_transform_of sv (robot_state_' st) (getBaseFrame solver0) = None"
      "r = False" "fg' = fg"
      "st' = st\<lparr>kin_solvers_' := (kin_solvers_' st)(getName arm := Some solver0 # rest)\<rparr>"
      "out = (if v then [ROS_WARN (UsingOnlyThreads
                  (num_threads_of (hardware_concurrency sv) (length gs) v))] else [])
             @ [ROS_INFO (FilteringWithThreads
                  (num_threads_of (hardware_concurrency sv) (length gs) v))]"
  | (run) solver0 rest link_transform pushed out' where
      "snd (ensure_solvers (kin_solvers_' st (getName arm)) arm
                (num_threads_of (hardware_concurrency sv) (length gs) v)) = Some solver0 # rest"
      "link_transform_of sv (robot_state_' st) (getBaseFrame solver0) = Some link_transform"
      "join_all (getPreGraspPose sv) (num_variables_' st)
         (create_threads (thread_struct gs link_transform fp ee (solver_timeout_' st) v)
            (Some solver0 # rest) (length gs)
            (num_threads_of (hardware_concurrency sv) (length gs) v) 0 0) = Inr (pushed, out')"
      "r = True" "fg' = fg @ pushed"
      "st' = st\<lparr>kin_solvers_' := (kin_solvers_' st)(getName arm := Some solver0 # rest)\<rparr>"
      "out = ((if v then [ROS_WARN (UsingOnlyThreads
                  (num_threads_of (hardware_concurrency sv) (length gs) v))] else [])
             @ [ROS_INFO (FilteringWithThreads
                  (num_threads_of (hardware_concurrency sv) (length gs) v))])
             @ out' @ [ROS_INFO (FilterComplete (length (fg @ pushed)) (length gs))]"
proof -
  define n where "n = num_threads_of (hardware_concurrency sv) (length gs) v"
  define loaded where "loaded = fst (ensure_solvers (kin_solvers_' st (getName arm)) arm n)"
  define solvers where "solvers = snd (ensure_solvers (kin_solvers_' st (getName arm)) arm n)"
  note defs = n_def[symmetric] loaded_def[symmetric] solvers_def[symmetric]
  show thesis
  proof (cases loaded)
    case False
    then show ?thesis
      using h no_solver unfolding filterGraspsHelper_def Let_def defs by simp
  next
    case True
    note loaded = this
    show ?thesis
    proof (cases solvers)
      case Nil
      then show ?thesis using h loaded unfolding filterGraspsHelper_def Let_def defs by simp
    next
      case (Cons s0 rest)
      show ?thesis
      proof (cases s0)
        case None
        then show ?thesis
          using h loaded Cons unfolding filterGraspsHelper_def Let_def defs by simp
      next
        case (Some solver0)
        show ?thesis
        proof (cases "link_transform_of sv (robot_state_' st) (getBaseFrame solver0)")
          case None
          then show ?thesis
            using h loaded Cons Some no_link[of solver0 rest]
            unfolding filterGraspsHelper_def Let_def defs by simp
        next
          case lt: (Some link_transform)
          show ?thesis
          proof (cases "join_all (getPreGraspPose sv) (num_variables_' st)
                  (create_threads (thread_struct gs link_transform fp ee (solver_timeout_' st) v)
                     (Some solver0 # rest) (length gs) n 0 0)")
            case (Inl f)
            then show ?thesis
              using h loaded Cons Some lt unfolding filterGraspsHelper_def Let_def defs by simp
          next
            case (Inr p)
            obtain pushed out' where p: "p = (pushed, out')" by (cases p)
            have e: "snd (ensure_solvers (kin_solvers_' st (getName arm)) arm
                (num_threads_of (hardware_concurrency sv) (length gs) v)) = Some solver0 # rest"
              using Cons Some by (simp add: solvers_def n_def)
            have j: "join_all (getPreGraspPose sv) (num_variables_' st)
                  (create_threads (thread_struct gs link_transform fp ee (solver_timeout_' st) v)
                     (Some solver0 # rest) (length gs)
                     (num_threads_of (hardware_concurrency sv) (length gs) v) 0 0)
                = Inr (pushed, out')"
              using Inr p by (simp add: n_def)
            have eqs: "r = True \<and> fg' = fg @ pushed
                \<and> st' = st\<lparr>kin_solvers_' := (kin_solvers_' st)(getName arm := Some solver0 # rest)\<rparr>
                \<and> out = ((if v then [ROS_WARN (UsingOnlyThreads n)] else [])
                           @ [ROS_INFO (FilteringWithThreads n)])
                          @ out' @ [ROS_INFO (FilterComplete (length (fg @ pushed)) (length gs))]"
              using h loaded Cons Some lt Inr p
              unfolding filterGraspsHelper_def Let_def defs by auto
            show ?thesis
              by (rule run[OF e lt j]) (use eqs in \<open>simp_all add: n_def\<close>)
          qed
        qed
      qed
    qed
  qed
qed

lemma helper_stage_runs:
  assumes "filterGraspsHelper sv st gs fg fp ee arm v = Inr (r, st', fg', out)"
  shows "stage_runs out = [num_threads_of (hardware_concurrency sv) (length gs) v]"
  using assms
proof (cases rule: helper_Inr_cases)
  case no_solver
  then show ?thesis by (simp add: stage_runs_append)
next
  case (no_link solver0 rest)
  then show ?thesis by (simp add: stage_runs_append)
next
  case (run solver0 rest link_transform pushed out')
  then show ?thesis
    using join_all_no_stage_run[OF run(3)] by (simp add: stage_runs_append)
qed

lemma ensure_solvers_False:
  "\<not> fst (ensure_solvers cached arm n) \<Longrightarrow> getSolverInstance arm = None"
  using load_solvers_False[of "[]" 0 arm n]
  by (simp add: ensure_solvers_def split: if_splits)

lemma helper_False:
  assumes "filterGraspsHelper sv st gs fg fp ee arm v = Inr (False, st', fg', out)"
  shows "(getSolverInstance arm = None \<or> frame_link_missing sv st' arm)
         \<and> robot_state_' st' = robot_state_' st \<and> fg' = fg"
  using assms
proof (cases rule: helper_Inr_cases)
  case no_solver
  then show ?thesis using ensure_solvers_False by simp
next
  case (no_link solver0 rest)
  then show ?thesis
    by (simp add: frame_link_missing_def link_transform_of_def split: if_splits option.splits)
next
  case (run solver0 rest link_transform pushed out')
  then show ?thesis by simp
qed

lemma filterGrasps_unfold:
  assumes "possible_grasps \<noteq> []" "length (getAttachedEndEffectorNames arm_jmg) = 1"
  shows "filterGrasps sv st possible_grasps fg fp arm_jmg =
     (case filterGraspsHelper sv
             (st\<lparr>solver_timeout_' := getDefaultIKTimeout arm_jmg,
                  num_variables_' := getVariableCount arm_jmg\<rparr>)
             possible_grasps [] fp
             (getJointModelGroup arm_jmg (getAttachedEndEffectorNames arm_jmg ! 0)) arm_jmg False of
        Inl f \<Rightarrow> Inl f
      | Inr (result, st2, filtered_grasps2, out) \<Rightarrow>
          if \<not> result \<or> length filtered_grasps2 = 0 then
            (case filterGraspsHelper sv st2 possible_grasps filtered_grasps2 fp
                    (getJointModelGroup arm_jmg (getAttachedEndEffectorNames arm_jmg ! 0))
                    arm_jmg True of
               Inl f \<Rightarrow> Inl f
             | Inr (result', st3, filtered_grasps3, out') \<Rightarrow>
                 Inr (result', st3, filtered_grasps3,
                      out @ [ROS_ERROR RerunningInVerboseMode] @ out'))
          else Inr (result, st2, filtered_grasps2, out))"
  using assms by (simp add: filterGrasps_def Let_def)

lemma filterGrasps_empty:
  "filterGrasps sv st [] fg fp arm = Inr (False, st, fg, [ROS_ERROR VectorIsEmpty])"
  by (simp add: filterGrasps_def)

lemma filterGrasps_False_reasons:
  assumes f: "filterGrasps sv st gs fg fp arm = Inr (False, st', fg', out)"
  shows "gs = [] \<or> length (getAttachedEndEffectorNames arm) = 0
         \<or> length (getAttachedEndEffectorNames arm) > 1
         \<or> getSolverInstance arm = None \<or> frame_link_missing sv st' arm"
proof (cases "gs \<noteq> [] \<and> length (getAttachedEndEffectorNames arm) = 1")
  case False
  then show ?thesis by (cases "length (getAttachedEndEffectorNames arm)") auto
next
  case True
  let ?st1 = "st\<lparr>solver_timeout_' := getDefaultIKTimeout arm,
                  num_variables_' := getVariableCount arm\<rparr>"
  let ?ee = "getJointModelGroup arm (getAttachedEndEffectorNames arm ! 0)"
  from True have u: "filterGrasps sv st gs fg fp arm =
     (case filterGraspsHelper sv ?st1 gs [] fp ?ee arm False of
        Inl f \<Rightarrow> Inl f
      | Inr (result, st2, filtered_grasps2, out) \<Rightarrow>
          if \<not> result \<or> length filtered_grasps2 = 0 then
            (case filterGraspsHelper sv st2 gs filtered_grasps2 fp ?ee arm True of
               Inl f \<Rightarrow> Inl f
             | Inr (result', st3, filtered_grasps3, out') \<Rightarrow>
                 Inr (result', st3, filtered_grasps3,
                      out @ [ROS_ERROR RerunningInVerboseMode] @ out'))
          else Inr (result, st2, filtered_grasps2, out))"
    by (simp add: filterGrasps_unfold)
  show ?thesis
  proof (cases "filterGraspsHelper sv ?st1 gs [] fp ?ee arm False")
    case (Inl a)
    then show ?thesis using f u by simp
  next
    case (Inr p)
    obtain r st2 fg2 out2 where p: "p = (r, st2, fg2, out2)" by (cases p)
    show ?thesis
    proof (cases "\<not> r \<or> length fg2 = 0")
      case False
      then show ?thesis using f u Inr p by simp
    next
      case retry: True
      show ?thesis
      proof (cases "filterGraspsHelper sv st2 gs fg2 fp ?ee arm True")
        case (Inl a)
        then show ?thesis using f u Inr p retry by simp
      next
        case second: (Inr p')
        obtain r' st3 fg3 out3 where p': "p' = (r', st3, fg3, out3)" by (cases p')
        from f u Inr p retry second p' have "r' = False" "st3 = st'" by simp_all
        with second p' have "filterGraspsHelper sv st2 gs fg2 fp ?ee arm True
           = Inr (False, st', fg3, out3)" by simp
        from helper_False[OF this] show ?thesis by simp
      qed
    qed
  qed
qed

lemmas ex_stage_a_defs =
  filterGrasps_def filterGraspsHelper_def ex_ik_services_def ex_filter_def ex_arm_def
  ex_solver_def ex_gripper_def ex_grasp_def num_threads_of_def ensure_solvers_def
  load_solvers.simps link_transform_of_def link_name_def thread_struct_def
  create_threads.simps binary64_values filterGraspThread_def filterGraspThread_loop.simps
  filterGraspThread_body_def Let_def

lemma ex_no_link:
  "filterGrasps ex_ik_services ex_filter [ex_grasp 1] [] False (ex_arm (Some (ex_solver ''base'')))
   = Inr (False,
          \<lparr>robot_state_' = [], kin_solvers_' = (\<lambda>name. [])(''arm'' := [Some (ex_solver ''base'')]),
           solver_timeout_' = 1 / 20, num_variables_' = 1\<rparr>,
          [],
          [ROS_INFO (FilteringWithThreads 1), ROS_ERROR RerunningInVerboseMode,
           ROS_WARN (UsingOnlyThreads 1), ROS_INFO (FilteringWithThreads 1)])"
  by (simp add: ex_stage_a_defs)

text \<open>
  C3, as amended. When \<^verbatim>\<open>filterGrasps\<close> returns false, the candidate list is empty, or
  the arm has no or more than one attached end effector, or the arm gives no solver, or
  the base frame of the first solver is not the frame of the robot model and names no
  link of the robot state. For the empty list it returns false at once: the members of
  the filter, the solvers among them, and the output vector are as they were.
\<close>

theorem filterGrasps_fails_only_if:
  "(filterGrasps sv st gs fg fp arm = Inr (False, st', fg', out) \<longrightarrow>
      gs = [] \<or> length (getAttachedEndEffectorNames arm) = 0
      \<or> length (getAttachedEndEffectorNames arm) > 1
      \<or> getSolverInstance arm = None \<or> frame_link_missing sv st' arm)
   \<and> filterGrasps sv st [] fg fp arm = Inr (False, st, fg, [ROS_ERROR VectorIsEmpty])"
  using filterGrasps_False_reasons[of sv st gs fg fp arm st' fg' out]
  by (simp add: filterGrasps_empty)

theorem filterGrasps_fails_only_if_witness:
  "frame_link_missing ex_ik_services
     \<lparr>robot_state_' = [], kin_solvers_' = (\<lambda>name. [])(''arm'' := [Some (ex_solver ''base'')]),
      solver_timeout_' = 1 / 20, num_variables_' = 1\<rparr>
     (ex_arm (Some (ex_solver ''base'')))
   \<and> filterGrasps ex_ik_services ex_filter [] [] False (ex_arm (Some (ex_solver ''base'')))
     = Inr (False, ex_filter, [], [ROS_ERROR VectorIsEmpty])"
  using filterGrasps_fails_only_if[of ex_ik_services ex_filter "[ex_grasp 1]" "[]" False
      "ex_arm (Some (ex_solver ''base''))"
      "\<lparr>robot_state_' = [], kin_solvers_' = (\<lambda>name. [])(''arm'' := [Some (ex_solver ''base'')]),
        solver_timeout_' = 1 / 20, num_variables_' = 1\<rparr>"
      "[]"
      "[ROS_INFO (FilteringWithThreads 1), ROS_ERROR RerunningInVerboseMode,
        ROS_WARN (UsingOnlyThreads 1), ROS_INFO (FilteringWithThreads 1)]"]
    ex_no_link
  by (simp add: ex_arm_def)

text \<open>
  The claim as it was stated names three cases. Here the list holds a candidate, the
  arm gives a solver and has one end effector, and \<^verbatim>\<open>filterGrasps\<close> returns false: the
  solver's base frame \<open>base\<close> is not the model frame \<open>world\<close>, and the robot state has no
  link \<open>base\<close>.
\<close>

theorem filterGrasps_fails_only_if_counterexample:
  "filterGrasps ex_ik_services ex_filter [ex_grasp 1] [] False (ex_arm (Some (ex_solver ''base'')))
   = Inr (False,
          \<lparr>robot_state_' = [], kin_solvers_' = (\<lambda>name. [])(''arm'' := [Some (ex_solver ''base'')]),
           solver_timeout_' = 1 / 20, num_variables_' = 1\<rparr>,
          [],
          [ROS_INFO (FilteringWithThreads 1), ROS_ERROR RerunningInVerboseMode,
           ROS_WARN (UsingOnlyThreads 1), ROS_INFO (FilteringWithThreads 1)])
   \<and> [ex_grasp 1] \<noteq> []
   \<and> getSolverInstance (ex_arm (Some (ex_solver ''base''))) = Some (ex_solver ''base'')
   \<and> length (getAttachedEndEffectorNames (ex_arm (Some (ex_solver ''base'')))) = 1"
  using ex_no_link by (simp add: ex_arm_def)

text \<open>
  Where the arm gives no solver and none is kept for its name, the first run returns
  false with the null solver left in the vector; the verbose run then finds one entry for
  its one worker, loads nothing and reads the null solver.
\<close>

lemma filterGrasps_no_solver_faults:
  "filterGrasps ex_ik_services ex_filter [ex_grasp 1] [] False (ex_arm None)
   = Inl NullPointerDereference"
  by (simp add: ex_stage_a_defs)

lemma chooseBestGrasp_empty: "fst (chooseBestGrasp [] chosen) = False"
  by (simp add: chooseBestGrasp_def)

lemma filterGraspsInCollision_empty: "fst (filterGraspsInCollision cs st [] sc arm rs v) = False"
  by (simp add: filterGraspsInCollision_def)

lemma num_threads_of_verbose: "num_threads_of hc n True = 1"
  by (simp add: num_threads_of_def)

text \<open>
  C5. Let the first run of stage A over a non-empty candidate list, for an arm with one
  end effector, return with no solution. Then \<^verbatim>\<open>filterGrasps\<close> is that run, the message
  that announces the verbose run, and one more run of \<^verbatim>\<open>filterGraspsHelper\<close> with
  \<^verbatim>\<open>verbose\<close> set, whose outcome is the outcome of the call; the worker count of a
  verbose run is \<open>1\<close>; whenever the second run returns, the output of the call announces
  two runs, the second with one worker; and when the second run returns with no solution
  either, \<^verbatim>\<open>filterGrasps\<close> returns what that run returned with the empty vector, on which
  both \<^verbatim>\<open>filterGraspsInCollision\<close> and \<^verbatim>\<open>chooseBestGrasp\<close> return false.
\<close>

theorem filterGrasps_retries_once:
  assumes "possible_grasps \<noteq> []"
    and "length (getAttachedEndEffectorNames arm_jmg) = 1"
    and "filterGraspsHelper sv
           (st\<lparr>solver_timeout_' := getDefaultIKTimeout arm_jmg,
                num_variables_' := getVariableCount arm_jmg\<rparr>)
           possible_grasps [] filter_pregrasp
           (getJointModelGroup arm_jmg (getAttachedEndEffectorNames arm_jmg ! 0)) arm_jmg False
         = Inr (True, st2, [], out)"
  shows "filterGrasps sv st possible_grasps filtered_grasps filter_pregrasp arm_jmg =
           (case filterGraspsHelper sv st2 possible_grasps [] filter_pregrasp
                   (getJointModelGroup arm_jmg (getAttachedEndEffectorNames arm_jmg ! 0))
                   arm_jmg True of
              Inl f \<Rightarrow> Inl f
            | Inr (result', st3, filtered_grasps3, out') \<Rightarrow>
                Inr (result', st3, filtered_grasps3, out @ [ROS_ERROR RerunningInVerboseMode] @ out'))
       \<and> num_threads_of (hardware_concurrency sv) (length possible_grasps) True = 1
       \<and> (\<forall>result' st3 filtered_grasps3 out'.
             filterGraspsHelper sv st2 possible_grasps [] filter_pregrasp
               (getJointModelGroup arm_jmg (getAttachedEndEffectorNames arm_jmg ! 0)) arm_jmg True
             = Inr (result', st3, filtered_grasps3, out') \<longrightarrow>
             stage_runs (out @ [ROS_ERROR RerunningInVerboseMode] @ out')
             = [num_threads_of (hardware_concurrency sv) (length possible_grasps) False, 1])
       \<and> (\<forall>result' st3 out'.
             filterGraspsHelper sv st2 possible_grasps [] filter_pregrasp
               (getJointModelGroup arm_jmg (getAttachedEndEffectorNames arm_jmg ! 0)) arm_jmg True
             = Inr (result', st3, [], out') \<longrightarrow>
             filterGrasps sv st possible_grasps filtered_grasps filter_pregrasp arm_jmg
             = Inr (result', st3, [], out @ [ROS_ERROR RerunningInVerboseMode] @ out')
             \<and> fst (chooseBestGrasp [] chosen) = False
             \<and> fst (filterGraspsInCollision cs st3 [] scene arm_jmg robot_state verbose) = False)"
proof -
  let ?ee = "getJointModelGroup arm_jmg (getAttachedEndEffectorNames arm_jmg ! 0)"
  have u: "filterGrasps sv st possible_grasps filtered_grasps filter_pregrasp arm_jmg =
           (case filterGraspsHelper sv st2 possible_grasps [] filter_pregrasp ?ee arm_jmg True of
              Inl f \<Rightarrow> Inl f
            | Inr (result', st3, filtered_grasps3, out') \<Rightarrow>
                Inr (result', st3, filtered_grasps3, out @ [ROS_ERROR RerunningInVerboseMode] @ out'))"
    using assms by (simp add: filterGrasps_unfold)
  have runs: "stage_runs (out @ [ROS_ERROR RerunningInVerboseMode] @ out')
             = [num_threads_of (hardware_concurrency sv) (length possible_grasps) False, 1]"
    if "filterGraspsHelper sv st2 possible_grasps [] filter_pregrasp ?ee arm_jmg True
             = Inr (result', st3, filtered_grasps3, out')"
    for result' st3 filtered_grasps3 out'
    using helper_stage_runs[OF assms(3)] helper_stage_runs[OF that]
    by (simp add: stage_runs_append num_threads_of_verbose)
  have zero: "filterGrasps sv st possible_grasps filtered_grasps filter_pregrasp arm_jmg
             = Inr (result', st3, [], out @ [ROS_ERROR RerunningInVerboseMode] @ out')"
    if "filterGraspsHelper sv st2 possible_grasps [] filter_pregrasp ?ee arm_jmg True
             = Inr (result', st3, [], out')"
    for result' st3 out'
    using u that by simp
  show ?thesis
    using u runs zero
    by (simp add: num_threads_of_verbose chooseBestGrasp_empty filterGraspsInCollision_empty)
qed

lemma ex_none_feasible_first:
  "filterGraspsHelper ex_ik_services
     (ex_filter\<lparr>solver_timeout_' := getDefaultIKTimeout (ex_arm (Some (ex_solver ''world''))),
                num_variables_' := getVariableCount (ex_arm (Some (ex_solver ''world'')))\<rparr>)
     [ex_grasp 0, ex_grasp (- 1), ex_grasp (- 2)] [] False
     (getJointModelGroup (ex_arm (Some (ex_solver ''world'')))
        (getAttachedEndEffectorNames (ex_arm (Some (ex_solver ''world''))) ! 0))
     (ex_arm (Some (ex_solver ''world''))) False
   = Inr (True,
          \<lparr>robot_state_' = [],
           kin_solvers_' = (\<lambda>name. [])(''arm'' := [Some (ex_solver ''world''), Some (ex_solver ''world'')]),
           solver_timeout_' = 1 / 20, num_variables_' = 1\<rparr>,
          [], [ROS_INFO (FilteringWithThreads 2), ROS_INFO (FilterComplete 0 3)])"
  by (simp add: ex_stage_a_defs)

lemma ex_none_feasible:
  "filterGrasps ex_ik_services ex_filter [ex_grasp 0, ex_grasp (- 1), ex_grasp (- 2)] [] False
     (ex_arm (Some (ex_solver ''world'')))
   = Inr (True,
          \<lparr>robot_state_' = [], kin_solvers_' = (\<lambda>name. [])(''arm'' := [Some (ex_solver ''world'')]),
           solver_timeout_' = 1 / 20, num_variables_' = 1\<rparr>,
          [],
          [ROS_INFO (FilteringWithThreads 2), ROS_INFO (FilterComplete 0 3),
           ROS_ERROR RerunningInVerboseMode,
           ROS_WARN (UsingOnlyThreads 1), ROS_INFO (FilteringWithThreads 1),
           publishEEMarkers (pose (grasp_pose (ex_grasp 0))), sleep (1 / 10),
           publishEEMarkers (pose (grasp_pose (ex_grasp (- 1)))), sleep (1 / 10),
           publishEEMarkers (pose (grasp_pose (ex_grasp (- 2)))), sleep (1 / 10),
           ROS_INFO (FilterComplete 0 3)])"
  by (simp add: ex_stage_a_defs)

lemma ex_none_feasible_second:
  "filterGraspsHelper ex_ik_services
     \<lparr>robot_state_' = [],
      kin_solvers_' = (\<lambda>name. [])(''arm'' := [Some (ex_solver ''world''), Some (ex_solver ''world'')]),
      solver_timeout_' = 1 / 20, num_variables_' = 1\<rparr>
     [ex_grasp 0, ex_grasp (- 1), ex_grasp (- 2)] [] False
     (getJointModelGroup (ex_arm (Some (ex_solver ''world'')))
        (getAttachedEndEffectorNames (ex_arm (Some (ex_solver ''world''))) ! 0))
     (ex_arm (Some (ex_solver ''world''))) True
   = Inr (True,
          \<lparr>robot_state_' = [], kin_solvers_' = (\<lambda>name. [])(''arm'' := [Some (ex_solver ''world'')]),
           solver_timeout_' = 1 / 20, num_variables_' = 1\<rparr>,
          [],
          [ROS_WARN (UsingOnlyThreads 1), ROS_INFO (FilteringWithThreads 1),
           publishEEMarkers (pose (grasp_pose (ex_grasp 0))), sleep (1 / 10),
           publishEEMarkers (pose (grasp_pose (ex_grasp (- 1)))), sleep (1 / 10),
           publishEEMarkers (pose (grasp_pose (ex_grasp (- 2)))), sleep (1 / 10),
           ROS_INFO (FilterComplete 0 3)])"
  by (simp add: ex_stage_a_defs)

theorem filterGrasps_retries_once_witness:
  "[ex_grasp 0, ex_grasp (- 1), ex_grasp (- 2)] \<noteq> []
   \<and> length (getAttachedEndEffectorNames (ex_arm (Some (ex_solver ''world'')))) = 1
   \<and> filterGrasps ex_ik_services ex_filter [ex_grasp 0, ex_grasp (- 1), ex_grasp (- 2)] [] False
        (ex_arm (Some (ex_solver ''world'')))
      = Inr (True,
          \<lparr>robot_state_' = [], kin_solvers_' = (\<lambda>name. [])(''arm'' := [Some (ex_solver ''world'')]),
           solver_timeout_' = 1 / 20, num_variables_' = 1\<rparr>,
          [],
          [ROS_INFO (FilteringWithThreads 2), ROS_INFO (FilterComplete 0 3)]
          @ [ROS_ERROR RerunningInVerboseMode]
          @ [ROS_WARN (UsingOnlyThreads 1), ROS_INFO (FilteringWithThreads 1),
             publishEEMarkers (pose (grasp_pose (ex_grasp 0))), sleep (1 / 10),
             publishEEMarkers (pose (grasp_pose (ex_grasp (- 1)))), sleep (1 / 10),
             publishEEMarkers (pose (grasp_pose (ex_grasp (- 2)))), sleep (1 / 10),
             ROS_INFO (FilterComplete 0 3)])
   \<and> stage_runs
        ([ROS_INFO (FilteringWithThreads 2), ROS_INFO (FilterComplete 0 3)]
          @ [ROS_ERROR RerunningInVerboseMode]
          @ [ROS_WARN (UsingOnlyThreads 1), ROS_INFO (FilteringWithThreads 1),
             publishEEMarkers (pose (grasp_pose (ex_grasp 0))), sleep (1 / 10),
             publishEEMarkers (pose (grasp_pose (ex_grasp (- 1)))), sleep (1 / 10),
             publishEEMarkers (pose (grasp_pose (ex_grasp (- 2)))), sleep (1 / 10),
             ROS_INFO (FilterComplete 0 3)])
      = [2, 1]"
proof -
  have ne: "[ex_grasp 0, ex_grasp (- 1), ex_grasp (- 2)] \<noteq> []" by simp
  have ee: "length (getAttachedEndEffectorNames (ex_arm (Some (ex_solver ''world'')))) = 1"
    by (simp add: ex_arm_def)
  note t = filterGrasps_retries_once[OF ne ee ex_none_feasible_first,
      of "[]" "ex_solution 0" ex_collision_services "()" "[]" False]
  from t ex_none_feasible_second ne ee
  have "filterGrasps ex_ik_services ex_filter [ex_grasp 0, ex_grasp (- 1), ex_grasp (- 2)] [] False
        (ex_arm (Some (ex_solver ''world'')))
      = Inr (True,
          \<lparr>robot_state_' = [], kin_solvers_' = (\<lambda>name. [])(''arm'' := [Some (ex_solver ''world'')]),
           solver_timeout_' = 1 / 20, num_variables_' = 1\<rparr>,
          [],
          [ROS_INFO (FilteringWithThreads 2), ROS_INFO (FilterComplete 0 3)]
          @ [ROS_ERROR RerunningInVerboseMode]
          @ [ROS_WARN (UsingOnlyThreads 1), ROS_INFO (FilteringWithThreads 1),
             publishEEMarkers (pose (grasp_pose (ex_grasp 0))), sleep (1 / 10),
             publishEEMarkers (pose (grasp_pose (ex_grasp (- 1)))), sleep (1 / 10),
             publishEEMarkers (pose (grasp_pose (ex_grasp (- 2)))), sleep (1 / 10),
             ROS_INFO (FilterComplete 0 3)])"
    by blast
  then show ?thesis using ee by simp
qed

end
